theory Spec2Isabelle
  imports Complex_Main "HOL-Library.Word" "HOL-Library.Sublist"
begin

section \<open>The jitter buffer (\<open>audioBuffer\<close>)\<close>

text \<open>
  The Go struct \<open>audioBuffer\<close> holds the byte slice \<open>buf\<close>, the flag \<open>closed\<close> and the
  three configuration numbers. The mutex and the condition variable are not fields of
  the model: every method body runs under the mutex, so one evaluation of a method of
  the model is one critical section. Lengths and the configuration numbers are Go
  \<open>int\<close>s that are never negative and far from 64-bit overflow; they are \<open>nat\<close> here.
\<close>

type_synonym byte = "8 word"

record audioBuffer =
  buf :: "byte list"
  closed :: bool
  capacity :: nat
  lowWater :: nat
  highWater :: nat

definition bytesPerSecond :: nat where
  "bytesPerSecond = 48000 * 2 * 2"

definition bufferCapacity :: nat where
  "bufferCapacity = bytesPerSecond div 2"

definition lowWaterMark :: nat where
  "lowWaterMark = bytesPerSecond div 20"

definition highWaterMark :: nat where
  "highWaterMark = (bufferCapacity * 4) div 5"

definition newAudioBuffer :: audioBuffer where
  "newAudioBuffer =
     \<lparr>buf = [], closed = False, capacity = bufferCapacity,
      lowWater = lowWaterMark, highWater = highWaterMark\<rparr>"

datatype error = EOF | ErrClosedPipe

text \<open>
  \<open>Read\<close> takes the length \<open>n\<close> of the caller's slice. \<open>ReadBlocked\<close> is the outcome of
  a pass in which the loop condition \<open>len(b.buf) < b.lowWater && !b.closed\<close> holds: the
  caller stays in \<open>cond.Wait()\<close> and the buffer is as before; after a wake-up the
  condition is tested again, which is again an evaluation of \<open>Read\<close>. \<open>ReadErr\<close> is
  \<open>(0, err)\<close>; \<open>ReadOk bs\<close> is \<open>(len bs, nil)\<close> with \<open>bs\<close> the bytes that \<open>copy\<close> moved
  into the caller's slice.
\<close>

datatype read_result = ReadBlocked | ReadErr error | ReadOk "byte list"

definition Read :: "audioBuffer \<Rightarrow> nat \<Rightarrow> read_result \<times> audioBuffer" where
  "Read b n =
     (if length (buf b) < lowWater b \<and> \<not> closed b then (ReadBlocked, b)
      else if closed b \<and> length (buf b) = 0 then (ReadErr EOF, b)
      else (ReadOk (take n (buf b)), b\<lparr>buf := drop n (buf b)\<rparr>))"

text \<open>
  The discard loop of \<open>Write\<close>, on the slice and the length of the incoming data. The
  loop can run forever, so it is a partial function: \<open>None\<close> is a loop that does not
  return.
\<close>

partial_function (option) dropOldest :: "nat \<Rightarrow> nat \<Rightarrow> byte list \<Rightarrow> byte list option" where
  "dropOldest hw len_data bs =
     (if length bs + len_data > hw
      then dropOldest hw len_data
             (drop (if len_data > length bs then length bs else len_data) bs)
      else Some bs)"

text \<open>\<open>WriteOk n\<close> is \<open>(n, nil)\<close> and \<open>WriteErr e\<close> is \<open>(0, e)\<close>.\<close>

datatype write_result = WriteErr error | WriteOk nat

definition Write :: "audioBuffer \<Rightarrow> byte list \<Rightarrow> (write_result \<times> audioBuffer) option" where
  "Write b data =
     (if length data = 0 then Some (WriteOk 0, b)
      else if closed b then Some (WriteErr ErrClosedPipe, b)
      else case dropOldest (highWater b) (length data) (buf b) of
             None \<Rightarrow> None
           | Some bs \<Rightarrow> Some (WriteOk (length data), b\<lparr>buf := bs @ data\<rparr>))"

definition Close :: "audioBuffer \<Rightarrow> audioBuffer" where
  "Close b = (if \<not> closed b then b\<lparr>closed := True\<rparr> else b)"


text \<open>
  A thread's view of the buffer as a sequence of critical sections: the operations
  that take the mutex, applied one after the other. A \<open>Write\<close> that does not return
  ends the run (\<open>None\<close>): it never releases the mutex.
\<close>

datatype op = OpWrite "byte list" | OpRead nat | OpClose

fun step :: "audioBuffer \<Rightarrow> op \<Rightarrow> audioBuffer option" where
  "step b (OpWrite d) = map_option snd (Write b d)"
| "step b (OpRead n) = Some (snd (Read b n))"
| "step b OpClose = Some (Close b)"

fun run :: "audioBuffer \<Rightarrow> op list \<Rightarrow> audioBuffer option" where
  "run b [] = Some b"
| "run b (x # xs) = (case step b x of None \<Rightarrow> None | Some b' \<Rightarrow> run b' xs)"


text \<open>
  The watermark invariant of the buffer: the fill is at most the high-water mark, and
  the marks are ordered below the capacity.
\<close>

definition watermarks_ok :: "audioBuffer \<Rightarrow> bool" where
  "watermarks_ok b \<longleftrightarrow>
     length (buf b) \<le> highWater b \<and> lowWater b < highWater b \<and> highWater b < capacity b"

section \<open>The inbound decode loops (\<open>WriteWebRTCTrack\<close>)\<close>

text \<open>
  Go errors. \<open>fmt.Errorf("msg: %w", err)\<close> is \<open>Wrapped ''msg'' err\<close>; an error that comes
  from a library or from the network is \<open>External\<close> with its text; \<open>HTTPError\<close> is the
  error built from a status code and a response body; \<open>MessageOnly\<close> is \<open>fmt.Errorf\<close>
  with no wrapped error.
\<close>

datatype api_error =
    External string
  | Wrapped string api_error
  | HTTPError nat string
  | MessageOnly string

type_synonym int16 = "16 word"

text \<open>
  A remote track is its codec's MIME type and the payloads of the RTP packets that the
  successive calls of \<open>track.ReadRTP()\<close> return. When the list is used up the track has
  ended and \<open>ReadRTP\<close> returns an error.
\<close>

record TrackRemote =
  mimeType :: string
  packets :: "byte list list"

definition MimeTypeOpus :: string where
  "MimeTypeOpus = ''audio/opus''"

definition rtp_read_failed :: api_error where
  "rtp_read_failed = Wrapped ''failed to read RTP packet'' (External ''EOF'')"

text \<open>
  How a call of \<open>WriteWebRTCTrack\<close> ends: \<open>return nil\<close>, \<open>return err\<close>, or a run-time panic
  (a slice expression out of range).
\<close>

datatype track_exit = ReturnNil | ReturnErr api_error | Panic

text \<open>\<open>binary.LittleEndian.PutUint16\<close>: the low byte, then the high byte.\<close>

definition PutUint16 :: "int16 \<Rightarrow> byte list" where
  "PutUint16 v = [ucast v, ucast (drop_bit 8 v)]"

text \<open>
  \<open>toByteArray(buf, bytes)\<close> with \<open>len_bytes = len(bytes)\<close>. The result is the part
  \<open>bytes[:bi]\<close> that the function has written; the caller passes exactly that on.
\<close>

definition toByteArray :: "int16 list \<Rightarrow> nat \<Rightarrow> api_error + byte list" where
  "toByteArray bf len_bytes =
     (if length bf * 2 > len_bytes then Inl (MessageOnly ''invalid buffer sizes'')
      else Inr (concat (map PutUint16 bf)))"

text \<open>
  \<open>OpusV2AudioPlayer\<close>: the jitter buffer and the \<open>closed\<close> flag. The oto context and
  player are the audio hardware and have no part in the loop's control flow.
\<close>

record OpusV2AudioPlayer =
  v2_audioBuffer :: audioBuffer
  v2_closed :: bool

text \<open>
  The buffer sizes of the loop: \<open>frameSizeMs = 60\<close> at \<open>sampleRate = 24000\<close>,
  \<open>len(pcmBuf) = frameSize * channels\<close> and \<open>len(byteBuf) = len(pcmBuf) * 2\<close>.
\<close>

definition v2_frameSize :: nat where
  "v2_frameSize = (60 * 24000) div 1000"

definition v2_len_pcmBuf :: nat where
  "v2_len_pcmBuf = v2_frameSize * 2"

definition v2_len_byteBuf :: nat where
  "v2_len_byteBuf = v2_len_pcmBuf * 2"

text \<open>
  The \<open>for\<close> loop of \<open>OpusV2AudioPlayer.WriteWebRTCTrack\<close>. The Opus decoder is a library:
  \<open>dec payload\<close> is \<open>None\<close> when \<open>decoder.Decode\<close> returns an error, and otherwise the
  samples \<open>pcmBuf[:samplesPerChannel*2]\<close> it has produced; the slice expression panics
  when that is longer than \<open>pcmBuf\<close>. \<open>cl\<close> is \<open>ap.closed\<close>. A decode error, a
  conversion error and a \<open>Write\<close> error all \<open>continue\<close> with the next packet. The result
  is \<open>None\<close> when a \<open>Write\<close> does not return.
\<close>

fun v2_loop ::
  "(byte list \<Rightarrow> int16 list option) \<Rightarrow> bool \<Rightarrow> byte list list \<Rightarrow> audioBuffer \<Rightarrow>
   (track_exit \<times> audioBuffer) option" where
  "v2_loop dec cl ps b =
     (if cl then Some (ReturnNil, b)
      else case ps of
        [] \<Rightarrow> Some (ReturnErr rtp_read_failed, b)
      | p # rest \<Rightarrow>
          (case dec p of
             None \<Rightarrow> v2_loop dec cl rest b
           | Some pcm \<Rightarrow>
               if length pcm > v2_len_pcmBuf then Some (Panic, b)
               else (case toByteArray pcm v2_len_byteBuf of
                       Inl e \<Rightarrow> v2_loop dec cl rest b
                     | Inr bytes \<Rightarrow>
                         (case Write b bytes of
                            None \<Rightarrow> None
                          | Some (WriteErr e, b') \<Rightarrow> v2_loop dec cl rest b'
                          | Some (WriteOk n, b') \<Rightarrow> v2_loop dec cl rest b'))))"

text \<open>
  \<open>OpusV2AudioPlayer.WriteWebRTCTrack\<close>: the codec test, \<open>opusv2.NewDecoder\<close> (an error
  or the decoder), then the loop.
\<close>

definition WriteWebRTCTrack_V2 ::
  "(api_error + (byte list \<Rightarrow> int16 list option)) \<Rightarrow> OpusV2AudioPlayer \<Rightarrow> TrackRemote \<Rightarrow>
   (track_exit \<times> OpusV2AudioPlayer) option" where
  "WriteWebRTCTrack_V2 newDecoder ap track =
     (if mimeType track \<noteq> MimeTypeOpus
      then Some (ReturnErr (MessageOnly (''unsupported codec: '' @ mimeType track)), ap)
      else case newDecoder of
        Inl e \<Rightarrow> Some (ReturnErr (Wrapped ''failed to create opus decoder'' e), ap)
      | Inr dec \<Rightarrow>
          map_option (\<lambda>(x, b). (x, ap\<lparr>v2_audioBuffer := b\<rparr>))
            (v2_loop dec (v2_closed ap) (packets track) (v2_audioBuffer ap)))"

text \<open>The bytes that the loop hands to the jitter buffer for a packet that decodes.\<close>

definition v2_bytes :: "(byte list \<Rightarrow> int16 list option) \<Rightarrow> byte list \<Rightarrow> byte list" where
  "v2_bytes dec p = concat (map PutUint16 (the (dec p)))"

text \<open>
  \<open>OpusV3AudioPlayer\<close>. Its loop clears \<open>pcmBuf\<close> (\<open>96*20*4\<close> bytes), lets the decoder
  write into it and hands the whole of \<open>pcmBuf\<close> to the jitter buffer: \<open>dec payload\<close> is
  \<open>None\<close> on a decode error and otherwise the bytes written at the front of \<open>pcmBuf\<close>.
\<close>

record OpusV3AudioPlayer =
  v3_audioBuffer :: audioBuffer
  v3_closed :: bool

definition v3_len_pcmBuf :: nat where
  "v3_len_pcmBuf = 96 * 20 * 4"

definition v3_pcmBuf :: "byte list \<Rightarrow> byte list" where
  "v3_pcmBuf out = out @ replicate (v3_len_pcmBuf - length out) 0"

fun v3_loop ::
  "(byte list \<Rightarrow> byte list option) \<Rightarrow> bool \<Rightarrow> byte list list \<Rightarrow> audioBuffer \<Rightarrow>
   (track_exit \<times> audioBuffer) option" where
  "v3_loop dec cl ps b =
     (if cl then Some (ReturnNil, b)
      else case ps of
        [] \<Rightarrow> Some (ReturnErr rtp_read_failed, b)
      | p # rest \<Rightarrow>
          (case dec p of
             None \<Rightarrow> v3_loop dec cl rest b
           | Some out \<Rightarrow>
               if length out > v3_len_pcmBuf then Some (Panic, b)
               else (case Write b (v3_pcmBuf out) of
                       None \<Rightarrow> None
                     | Some (WriteErr e, b') \<Rightarrow> v3_loop dec cl rest b'
                     | Some (WriteOk n, b') \<Rightarrow> v3_loop dec cl rest b')))"

definition WriteWebRTCTrack_V3 ::
  "(byte list \<Rightarrow> byte list option) \<Rightarrow> OpusV3AudioPlayer \<Rightarrow> TrackRemote \<Rightarrow>
   (track_exit \<times> OpusV3AudioPlayer) option" where
  "WriteWebRTCTrack_V3 dec ap track =
     (if mimeType track \<noteq> MimeTypeOpus
      then Some (ReturnErr (MessageOnly (''unsupported codec: '' @ mimeType track)), ap)
      else map_option (\<lambda>(x, b). (x, ap\<lparr>v3_audioBuffer := b\<rparr>))
             (v3_loop dec (v3_closed ap) (packets track) (v3_audioBuffer ap)))"

definition v3_bytes :: "(byte list \<Rightarrow> byte list option) \<Rightarrow> byte list \<Rightarrow> byte list" where
  "v3_bytes dec p = v3_pcmBuf (the (dec p))"

section \<open>The session negotiator (\<open>OpenAIRealtimeAPI\<close>)\<close>

text \<open>
  The struct \<open>OpenAIRealtimeAPI\<close>. A peer connection and a data channel are handles
  (\<open>nat\<close>); \<open>None\<close> is the \<open>nil\<close> pointer. \<open>connectMutex\<close> makes each method one critical
  section, as in the jitter buffer.
\<close>

record OpenAIRealtimeAPI =
  Key :: string
  Model :: string
  Voice :: string
  ephemeralToken :: string
  peerConnection :: "nat option"
  dataChannel :: "nat option"

definition NewOpenAIRealtimeAPI :: "string \<Rightarrow> OpenAIRealtimeAPI" where
  "NewOpenAIRealtimeAPI key =
     \<lparr>Key = key, Model = ''gpt-4o-realtime-preview-2024-12-17'', Voice = ''verse'',
      ephemeralToken = '''', peerConnection = None, dataChannel = None\<rparr>"

text \<open>
  What the negotiator does to the outside world, in order: the token exchange (the POST
  to \<open>/v1/realtime/sessions\<close>, authorised with the API key, carrying model and voice),
  the offer exchange (the POST of the SDP to \<open>/v1/realtime\<close>, authorised with the
  bearer token given), and the closing of a peer connection or a data channel.
\<close>

datatype event =
    TokenRequest string string string
  | OfferRequest string string string
  | ClosePeerConnection nat
  | CloseDataChannel nat

text \<open>
  What the outside world answers during one call of \<open>Connect\<close>: the HTTP response of
  the token endpoint (a transport error, or status code and body) and the JSON decoding
  of its \<open>client_secret.value\<close>; the results of the WebRTC library calls; the HTTP
  response of the signalling endpoint.
\<close>

record remote =
  tokenResponse :: "api_error + nat \<times> string"
  decodeClientSecret :: "string \<Rightarrow> api_error + string"
  newPeerConnection :: "api_error + nat"
  addTransceiverFromTrack :: "api_error option"
  createOffer :: "api_error + string"
  setLocalDescription :: "api_error option"
  offerResponse :: "api_error + nat \<times> string"
  setRemoteDescription :: "api_error option"
  createDataChannel :: "api_error + nat"

definition createEphemeralToken ::
  "remote \<Rightarrow> OpenAIRealtimeAPI \<Rightarrow> (api_error + string) \<times> event list" where
  "createEphemeralToken w c =
     (case tokenResponse w of
        Inl e \<Rightarrow> Inl e
      | Inr (statusCode, body) \<Rightarrow>
          if statusCode \<noteq> 200 then Inl (HTTPError statusCode body)
          else (case decodeClientSecret w body of
                  Inl e \<Rightarrow> Inl e
                | Inr v \<Rightarrow>
                    if v = '''' then Inl (MessageOnly ''got back empty token'') else Inr v),
      [TokenRequest (Key c) (Model c) (Voice c)])"

definition sendOffer ::
  "remote \<Rightarrow> OpenAIRealtimeAPI \<Rightarrow> string \<Rightarrow> string \<Rightarrow> (api_error + string) \<times> event list" where
  "sendOffer w c sdp token =
     (case offerResponse w of
        Inl e \<Rightarrow> Inl e
      | Inr (statusCode, body) \<Rightarrow>
          if statusCode \<ge> 300 then Inl (HTTPError statusCode body) else Inr body,
      [OfferRequest (Model c) sdp token])"

definition setupPeerConnection ::
  "remote \<Rightarrow> OpenAIRealtimeAPI \<Rightarrow> api_error option \<times> OpenAIRealtimeAPI" where
  "setupPeerConnection w c =
     (case newPeerConnection w of
        Inl e \<Rightarrow> (Some (Wrapped ''failed to create peer connection'' e), c)
      | Inr pc \<Rightarrow>
          (case addTransceiverFromTrack w of
             Some e \<Rightarrow> (Some (Wrapped ''failed to add user media track'' e), c)
           | None \<Rightarrow> (None, c\<lparr>peerConnection := Some pc\<rparr>)))"

definition connectToRealtimeAPI ::
  "remote \<Rightarrow> OpenAIRealtimeAPI \<Rightarrow> api_error option \<times> event list" where
  "connectToRealtimeAPI w c =
     (case createOffer w of
        Inl e \<Rightarrow> (Some (Wrapped ''failed to create offer'' e), [])
      | Inr offer \<Rightarrow>
          (case setLocalDescription w of
             Some e \<Rightarrow> (Some (Wrapped ''failed to set local description'' e), [])
           | None \<Rightarrow>
               (case sendOffer w c offer (ephemeralToken c) of
                  (Inl e, evs) \<Rightarrow> (Some (Wrapped ''failed to send offer'' e), evs)
                | (Inr answer, evs) \<Rightarrow>
                    (case setRemoteDescription w of
                       Some e \<Rightarrow> (Some (Wrapped ''failed to set remote description'' e), evs)
                     | None \<Rightarrow> (None, evs)))))"

definition setupDataChannel ::
  "remote \<Rightarrow> OpenAIRealtimeAPI \<Rightarrow> api_error option \<times> OpenAIRealtimeAPI" where
  "setupDataChannel w c =
     (case createDataChannel w of
        Inl e \<Rightarrow> (Some (Wrapped ''failed to create data channel'' e), c)
      | Inr dc \<Rightarrow> (None, c\<lparr>dataChannel := Some dc\<rparr>))"

text \<open>\<open>c.peerConnection.Close()\<close> in the two clean-up branches of \<open>Connect\<close>.\<close>

definition closePeerConnection :: "OpenAIRealtimeAPI \<Rightarrow> event list" where
  "closePeerConnection c = (case peerConnection c of None \<Rightarrow> [] | Some pc \<Rightarrow> [ClosePeerConnection pc])"

text \<open>
  \<open>Connect\<close> from \<open>setupPeerConnection\<close> on, after the token step; \<open>evs0\<close> are the events
  so far.
\<close>

definition Connect_after_token ::
  "remote \<Rightarrow> OpenAIRealtimeAPI \<Rightarrow> event list \<Rightarrow>
   api_error option \<times> OpenAIRealtimeAPI \<times> event list" where
  "Connect_after_token w c evs0 =
     (case setupPeerConnection w c of
        (Some e, c1) \<Rightarrow> (Some e, c1, evs0)
      | (None, c1) \<Rightarrow>
          (case connectToRealtimeAPI w c1 of
             (Some e, evs1) \<Rightarrow>
               (Some e, c1\<lparr>peerConnection := None\<rparr>, evs0 @ evs1 @ closePeerConnection c1)
           | (None, evs1) \<Rightarrow>
               (case setupDataChannel w c1 of
                  (Some e, c2) \<Rightarrow>
                    (Some e, c2\<lparr>peerConnection := None\<rparr>, evs0 @ evs1 @ closePeerConnection c2)
                | (None, c2) \<Rightarrow> (None, c2, evs0 @ evs1))))"

text \<open>\<open>Connect\<close> returns the error or \<open>nil\<close>, the new state and the events.\<close>

definition Connect ::
  "remote \<Rightarrow> OpenAIRealtimeAPI \<Rightarrow> api_error option \<times> OpenAIRealtimeAPI \<times> event list" where
  "Connect w c =
     (if ephemeralToken c = ''''
      then (case createEphemeralToken w c of
              (Inl e, evs) \<Rightarrow> (Some e, c, evs)
            | (Inr token, evs) \<Rightarrow> Connect_after_token w (c\<lparr>ephemeralToken := token\<rparr>) evs)
      else Connect_after_token w c [])"

definition Disconnect :: "OpenAIRealtimeAPI \<Rightarrow> OpenAIRealtimeAPI \<times> event list" where
  "Disconnect c =
     (c\<lparr>dataChannel := None, peerConnection := None\<rparr>,
      (case dataChannel c of None \<Rightarrow> [] | Some dc \<Rightarrow> [CloseDataChannel dc]) @
      (case peerConnection c of None \<Rightarrow> [] | Some pc \<Rightarrow> [ClosePeerConnection pc]))"

text \<open>Reading the event list: is an event a token exchange; the bearer tokens of the offers.\<close>

definition is_TokenRequest :: "event \<Rightarrow> bool" where
  "is_TokenRequest ev = (case ev of TokenRequest k m v \<Rightarrow> True | _ \<Rightarrow> False)"

definition offer_tokens :: "event list \<Rightarrow> string list" where
  "offer_tokens evs = concat (map (\<lambda>ev. case ev of OfferRequest m sdp t \<Rightarrow> [t] | _ \<Rightarrow> []) evs)"

text \<open>A remote side on which every step of the negotiation succeeds.\<close>

definition remote_ok :: remote where
  "remote_ok =
     \<lparr>tokenResponse = Inr (200, ''{}''), decodeClientSecret = (\<lambda>body. Inr ''ek_123''),
      newPeerConnection = Inr 1, addTransceiverFromTrack = None, createOffer = Inr ''v=0'',
      setLocalDescription = None, offerResponse = Inr (201, ''v=1''),
      setRemoteDescription = None, createDataChannel = Inr 7\<rparr>"

section \<open>Sample conversion (\<open>float32\<close> to 16-bit PCM)\<close>

text \<open>
  A finite \<open>float32\<close> sample is modelled by the real number it denotes. The product
  \<open>sample * 32767\<close> is a \<open>float32\<close> multiplication: the exact product rounded to the
  nearest \<open>float32\<close>, ties to the even significand. \<open>float32_ulp x\<close> is the spacing of the
  \<open>float32\<close> grid around \<open>x\<close>: 24 significant bits, the exponent never below \<open>-126\<close>
  (below it the values are subnormal and equally spaced). The exponent has no upper bound
  here, so a product beyond the largest \<open>float32\<close> stays a large number instead of
  becoming an infinity; both are outside the integer range of the conversion below.
\<close>

definition round_half_even :: "real \<Rightarrow> int" where
  "round_half_even y =
     (let f = \<lfloor>y\<rfloor> in
      if y - of_int f < 1 / 2 then f
      else if 1 / 2 < y - of_int f then f + 1
      else if even f then f else f + 1)"

definition float32_ulp :: "real \<Rightarrow> real" where
  "float32_ulp x = 2 powi (max (- 126) \<lfloor>log 2 \<bar>x\<bar>\<rfloor> - 23)"

definition float32_round :: "real \<Rightarrow> real" where
  "float32_round x = float32_ulp x * of_int (round_half_even (x / float32_ulp x))"

definition float32_mul :: "real \<Rightarrow> real \<Rightarrow> real" where
  "float32_mul x y = float32_round (x * y)"

text \<open>
  The conversions \<open>int32(x)\<close> and \<open>int(x)\<close> of a floating-point value discard the
  fraction. When the truncated value does not fit the \<open>w\<close>-bit integer type, the
  language leaves the result to the implementation: that case is \<open>None\<close>.
\<close>

definition truncate :: "real \<Rightarrow> int" where
  "truncate x = (if 0 \<le> x then \<lfloor>x\<rfloor> else \<lceil>x\<rceil>)"

definition float_to_int :: "nat \<Rightarrow> real \<Rightarrow> int option" where
  "float_to_int w x =
     (if - (2 ^ (w - 1)) \<le> truncate x \<and> truncate x < 2 ^ (w - 1)
      then Some (truncate x) else None)"

text \<open>
  The body of the conversion loop of \<open>recordAudioToWav\<close>, for one sample:
  \<open>val := int32(decodedFloatBuf[i] * 32767)\<close>, then \<open>pcm16[i]\<close> is \<open>32767\<close> if
  \<open>val > 32767\<close>, \<open>-32768\<close> if \<open>val < -32768\<close>, and \<open>int16(val)\<close> otherwise.
\<close>

definition recordAudioToWav_pcm16 :: "real \<Rightarrow> int16 option" where
  "recordAudioToWav_pcm16 sample =
     (case float_to_int 32 (float32_mul sample 32767) of
        None \<Rightarrow> None
      | Some val \<Rightarrow>
          Some (if val > 32767 then 32767
                else if val < - 32768 then - 32768
                else word_of_int val))"

text \<open>
  The body of the conversion loop of the echo program's \<open>main\<close>, for one sample:
  \<open>v := int(sample * 32767)\<close>, lowered to \<open>-32768\<close> and raised to \<open>32767\<close>, stored in
  \<open>intBuf[i]\<close>. \<open>w\<close> is the width of \<open>int\<close> on the target, 32 or 64.
\<close>

definition main_intBuf :: "nat \<Rightarrow> real \<Rightarrow> int option" where
  "main_intBuf w sample =
     (case float_to_int w (float32_mul sample 32767) of
        None \<Rightarrow> None
      | Some v \<Rightarrow>
          Some (if v < - 32768 then - 32768
                else if v > 32767 then 32767
                else v))"

section \<open>The discard loop\<close>

lemma dropOldest_fits: "length bs + n \<le> hw \<Longrightarrow> dropOldest hw n bs = Some bs"
  by (subst dropOldest.simps) simp

lemma dropOldest_step:
  "hw < length bs + n \<Longrightarrow> dropOldest hw n bs = dropOldest hw n (drop (min n (length bs)) bs)"
  by (subst dropOldest.simps) (simp add: min_def)

lemma dropOldest_Some_le:
  assumes "dropOldest hw n bs = Some y"
  shows "n \<le> hw"
  by (rule dropOldest.raw_induct[where P = "\<lambda>hw n bs y. n \<le> hw", OF _ assms])
     (auto split: if_splits)

lemma dropOldest_Some_pos:
  assumes "dropOldest hw n bs = Some y"
  shows "0 < n \<or> length bs \<le> hw"
proof (rule dropOldest.raw_induct[where P = "\<lambda>hw n bs y. 0 < n \<or> length bs \<le> hw", OF _ assms])
  fix f hw n bs y
  assume IH: "\<And>hw n bs y. f hw n bs = Some y \<Longrightarrow> 0 < n \<or> length bs \<le> hw"
    and eq: "(if hw < length bs + n
      then f hw n (drop (if length bs < n then length bs else n) bs)
      else Some bs) = Some y"
  show "0 < n \<or> length bs \<le> hw"
  proof (cases "n = 0")
    case True
    show ?thesis
    proof (cases "hw < length bs + n")
      case over: True
      with eq True have "f hw n bs = Some y" by simp
      from IH[OF this] show ?thesis .
    next
      case False
      then show ?thesis by simp
    qed
  next
    case False
    then show ?thesis by simp
  qed
qed

lemma dropOldest_terminates:
  assumes "n \<le> hw" "0 < n"
  shows "\<exists>y. dropOldest hw n bs = Some y"
proof (induction "length bs" arbitrary: bs rule: less_induct)
  case less
  show ?case
  proof (cases "hw < length bs + n")
    case False
    then show ?thesis by (simp add: dropOldest_fits)
  next
    case True
    with assms have "0 < length bs" by linarith
    with assms have "length (drop (min n (length bs)) bs) < length bs" by simp
    from less[OF this] show ?thesis by (simp add: dropOldest_step[OF True])
  qed
qed

lemma dropOldest_Some_cases:
  assumes "dropOldest hw n bs = Some y"
  shows "(\<exists>k. y = drop k bs) \<and> length y + n \<le> hw \<and>
         (if hw < length bs + n then hw < 2 * (length y + n) else y = bs)"
  using assms
proof (induction "length bs" arbitrary: bs rule: less_induct)
  case less
  note n_le = dropOldest_Some_le[OF less.prems] and n_pos = dropOldest_Some_pos[OF less.prems]
  show ?case
  proof (cases "hw < length bs + n")
    case False
    with less.prems have "y = bs" by (simp add: dropOldest_fits)
    with False show ?thesis by (auto intro: exI[of _ 0])
  next
    case True
    let ?bs' = "drop (min n (length bs)) bs"
    from True n_le n_pos have pos: "0 < length bs" "0 < n" by linarith+
    then have shorter: "length ?bs' < length bs" by simp
    from less.prems have rec: "dropOldest hw n ?bs' = Some y"
      by (simp add: dropOldest_step[OF True])
    from less.hyps[OF shorter rec]
    obtain k where y: "y = drop k ?bs'" and fits: "length y + n \<le> hw"
      and half: "if hw < length ?bs' + n then hw < 2 * (length y + n) else y = ?bs'"
      by blast
    from y have "y = drop (k + min n (length bs)) bs" by (simp only: drop_drop)
    then have ex: "\<exists>k. y = drop k bs" by blast
    have "hw < 2 * (length y + n)"
    proof (cases "hw < length ?bs' + n")
      case True
      with half show ?thesis by simp
    next
      case False
      with half have "y = ?bs'" by simp
      with True show ?thesis by (simp add: min_def split: if_splits)
    qed
    with ex fits True show ?thesis by simp
  qed
qed

lemma dropOldest_diverges: "hw < n \<Longrightarrow> dropOldest hw n bs = None"
  using dropOldest_Some_le[of hw n bs] by (cases "dropOldest hw n bs") auto

section \<open>The buffer operations\<close>

lemma newAudioBuffer_fields:
  "buf newAudioBuffer = []" "closed newAudioBuffer = False"
  "capacity newAudioBuffer = 96000" "lowWater newAudioBuffer = 9600"
  "highWater newAudioBuffer = 76800"
  by (simp_all add: newAudioBuffer_def bufferCapacity_def lowWaterMark_def highWaterMark_def
      bytesPerSecond_def)

lemma Write_Some_cases:
  assumes "Write b d = Some (r, b')"
  shows "(d = [] \<and> r = WriteOk 0 \<and> b' = b) \<or>
         (d \<noteq> [] \<and> closed b \<and> r = WriteErr ErrClosedPipe \<and> b' = b) \<or>
         (d \<noteq> [] \<and> \<not> closed b \<and> r = WriteOk (length d) \<and>
          (\<exists>bs. dropOldest (highWater b) (length d) (buf b) = Some bs \<and> b' = b\<lparr>buf := bs @ d\<rparr>))"
  using assms by (auto simp: Write_def split: if_splits option.splits)

lemma Write_config:
  assumes "Write b d = Some (r, b')"
  shows "capacity b' = capacity b \<and> lowWater b' = lowWater b \<and> highWater b' = highWater b"
  using Write_Some_cases[OF assms] by auto

lemma Write_fill_le:
  assumes "Write b d = Some (r, b')" "length (buf b) \<le> highWater b"
  shows "length (buf b') \<le> highWater b'"
  using Write_Some_cases[OF assms(1)] assms(2)
  by (auto dest: dropOldest_Some_cases)

lemma Read_config:
  "capacity (snd (Read b n)) = capacity b \<and> lowWater (snd (Read b n)) = lowWater b \<and>
   highWater (snd (Read b n)) = highWater b"
  by (simp add: Read_def)

lemma Read_fill_le: "length (buf (snd (Read b n))) \<le> length (buf b)"
  by (simp add: Read_def)

lemma Close_fields:
  "buf (Close b) = buf b" "capacity (Close b) = capacity b" "lowWater (Close b) = lowWater b"
  "highWater (Close b) = highWater b" "closed (Close b) = True"
  by (simp_all add: Close_def)

lemma step_watermarks_ok:
  assumes "step b x = Some b'" "watermarks_ok b"
  shows "watermarks_ok b'"
proof (cases x)
  case (OpWrite d)
  with assms(1) obtain r where w: "Write b d = Some (r, b')" by auto
  from Write_config[OF w] Write_fill_le[OF w] assms(2) show ?thesis
    by (simp add: watermarks_ok_def)
next
  case (OpRead n)
  with assms(1) have "b' = snd (Read b n)" by simp
  with Read_config[of b n] Read_fill_le[of b n] assms(2) show ?thesis
    by (simp add: watermarks_ok_def)
next
  case OpClose
  with assms(1) have "b' = Close b" by simp
  with assms(2) show ?thesis by (simp add: watermarks_ok_def Close_fields)
qed

lemma run_watermarks_ok:
  "run b ops = Some b' \<Longrightarrow> watermarks_ok b \<Longrightarrow> watermarks_ok b'"
proof (induction ops arbitrary: b)
  case Nil
  then show ?case by simp
next
  case (Cons x xs)
  then obtain b1 where s: "step b x = Some b1" and r: "run b1 xs = Some b'"
    by (auto split: option.splits)
  from Cons.IH[OF r step_watermarks_ok[OF s Cons.prems(2)]] show ?case .
qed

lemma newAudioBuffer_watermarks_ok: "watermarks_ok newAudioBuffer"
  by (simp add: watermarks_ok_def newAudioBuffer_fields)

lemma Write_returns:
  assumes "length d \<le> highWater b"
  shows "\<exists>r b'. Write b d = Some (r, b')"
proof (cases "d = [] \<or> closed b")
  case True
  then show ?thesis by (auto simp: Write_def)
next
  case False
  with assms dropOldest_terminates[of "length d" "highWater b" "buf b"]
  show ?thesis by (auto simp: Write_def)
qed

lemma run_returns:
  assumes "\<forall>d. OpWrite d \<in> set ops \<longrightarrow> length d \<le> highWater b"
  shows "\<exists>b'. run b ops = Some b'"
  using assms
proof (induction ops arbitrary: b)
  case Nil
  then show ?case by simp
next
  case (Cons x xs)
  have "\<exists>b1. step b x = Some b1 \<and> highWater b1 = highWater b"
  proof (cases x)
    case (OpWrite d)
    with Cons.prems have "length d \<le> highWater b" by simp
    from Write_returns[OF this] obtain r b1 where w: "Write b d = Some (r, b1)" by blast
    with Write_config[OF w] OpWrite show ?thesis by simp
  next
    case (OpRead n)
    then show ?thesis by (simp add: Read_config)
  next
    case OpClose
    then show ?thesis by (simp add: Close_fields)
  qed
  then obtain b1 where s: "step b x = Some b1" and hw: "highWater b1 = highWater b" by blast
  from Cons.prems hw have "\<forall>d. OpWrite d \<in> set xs \<longrightarrow> length d \<le> highWater b1" by simp
  from Cons.IH[OF this] s show ?case by simp
qed

lemma Write_fits:
  "d \<noteq> [] \<Longrightarrow> \<not> closed b \<Longrightarrow> length (buf b) + length d \<le> highWater b \<Longrightarrow>
   Write b d = Some (WriteOk (length d), b\<lparr>buf := buf b @ d\<rparr>)"
  by (simp add: Write_def dropOldest_fits)

lemma Write_discard:
  "d \<noteq> [] \<Longrightarrow> \<not> closed b \<Longrightarrow> highWater b < length (buf b) + length d \<Longrightarrow>
   Write b d = Write (b\<lparr>buf := drop (min (length d) (length (buf b))) (buf b)\<rparr>) d"
  by (simp add: Write_def dropOldest_step split: option.splits)

section \<open>Watermark invariant\<close>

text \<open>
  Claim C1. The constructor establishes low-water < high-water < capacity. Starting from
  the freshly constructed buffer, after every sequence of writes, reads and closes that
  has returned, the fill is between 0 and the capacity, and a write that returns on a
  state where fill plus incoming length exceeds the high-water mark leaves
  fill \<open>\<le>\<close> high-water. A sequence whose writes are each no longer than the high-water mark
  does return.
\<close>

theorem watermark_invariant:
  "lowWater newAudioBuffer < highWater newAudioBuffer \<and>
   highWater newAudioBuffer < capacity newAudioBuffer \<and>
   (\<forall>ops b. run newAudioBuffer ops = Some b \<longrightarrow>
      0 \<le> length (buf b) \<and> length (buf b) \<le> capacity b \<and>
      (\<forall>d r b'. Write b d = Some (r, b') \<and> highWater b < length (buf b) + length d \<longrightarrow>
         length (buf b') \<le> highWater b')) \<and>
   (\<forall>ops. (\<forall>d. OpWrite d \<in> set ops \<longrightarrow> length d \<le> highWater newAudioBuffer) \<longrightarrow>
      (\<exists>b. run newAudioBuffer ops = Some b))"
proof (intro conjI allI impI)
  fix ops b
  assume r: "run newAudioBuffer ops = Some b"
  from run_watermarks_ok[OF r newAudioBuffer_watermarks_ok] have ok: "watermarks_ok b" .
  then show "length (buf b) \<le> capacity b" by (simp add: watermarks_ok_def)
  fix d r' b'
  assume "Write b d = Some (r', b') \<and> highWater b < length (buf b) + length d"
  then have w: "Write b d = Some (r', b')" by simp
  from Write_fill_le[OF w] ok show "length (buf b') \<le> highWater b'"
    by (simp add: watermarks_ok_def)
next
  fix ops
  assume "\<forall>d. OpWrite d \<in> set ops \<longrightarrow> length d \<le> highWater newAudioBuffer"
  from run_returns[OF this] show "\<exists>b. run newAudioBuffer ops = Some b" .
qed (simp_all add: newAudioBuffer_fields)


theorem watermark_invariant_witness:
  "run newAudioBuffer
     [OpWrite (replicate 30000 1), OpWrite (replicate 30000 2), OpWrite (replicate 30000 3),
      OpRead 4096]
   = Some (newAudioBuffer\<lparr>buf := replicate 25904 2 @ replicate 30000 3\<rparr>) \<and>
   length (replicate 25904 (2::byte) @ replicate 30000 3) \<le> capacity newAudioBuffer \<and>
   Write (newAudioBuffer\<lparr>buf := replicate 25904 2 @ replicate 30000 3\<rparr>) (replicate 30000 4)
   = Some (WriteOk 30000, newAudioBuffer\<lparr>buf := replicate 25904 3 @ replicate 30000 4\<rparr>) \<and>
   highWater newAudioBuffer < length (replicate 25904 (2::byte) @ replicate 30000 3) + 30000 \<and>
   length (replicate 25904 (3::byte) @ replicate 30000 4) \<le> highWater newAudioBuffer"
proof -
  let ?ops = "[OpWrite (replicate 30000 1), OpWrite (replicate 30000 2),
               OpWrite (replicate 30000 3), OpRead 4096]"
  let ?b = "newAudioBuffer\<lparr>buf := replicate 25904 2 @ replicate 30000 3\<rparr>"
  let ?b' = "newAudioBuffer\<lparr>buf := replicate 25904 3 @ replicate 30000 4\<rparr>"
  have w1: "Write newAudioBuffer (replicate 30000 1)
            = Some (WriteOk 30000, newAudioBuffer\<lparr>buf := replicate 30000 1\<rparr>)"
    by (simp add: Write_fits newAudioBuffer_fields)
  have w2: "Write (newAudioBuffer\<lparr>buf := replicate 30000 1\<rparr>) (replicate 30000 2)
            = Some (WriteOk 30000, newAudioBuffer\<lparr>buf := replicate 30000 1 @ replicate 30000 2\<rparr>)"
    by (simp add: Write_fits newAudioBuffer_fields)
  have w3: "Write (newAudioBuffer\<lparr>buf := replicate 30000 1 @ replicate 30000 2\<rparr>) (replicate 30000 3)
            = Some (WriteOk 30000, newAudioBuffer\<lparr>buf := replicate 30000 2 @ replicate 30000 3\<rparr>)"
    by (simp add: Write_discard Write_fits newAudioBuffer_fields)
  have r4: "Read (newAudioBuffer\<lparr>buf := replicate 30000 2 @ replicate 30000 3\<rparr>) 4096
            = (ReadOk (replicate 4096 2), ?b)"
    by (simp add: Read_def newAudioBuffer_fields)
  have run: "run newAudioBuffer ?ops = Some ?b"
    by (simp add: w1 w2 w3 r4)
  have w5: "Write ?b (replicate 30000 4) = Some (WriteOk 30000, ?b')"
    by (simp add: Write_discard Write_fits newAudioBuffer_fields)
  have over: "highWater ?b < length (buf ?b) + length (replicate 30000 (4::byte))"
    by (simp add: newAudioBuffer_fields)
  from watermark_invariant run w5 over
  have "length (buf ?b) \<le> capacity ?b \<and> length (buf ?b') \<le> highWater ?b'"
    by blast
  with run w5 over show ?thesis by simp
qed

section \<open>Termination of \<open>Write\<close>\<close>

text \<open>
  Claim C2. The claim is that \<open>Write\<close> terminates for data of any length. On the
  freshly constructed buffer, data of 76801 bytes (one more than the high-water mark)
  makes the discard loop spin for ever: the buffer is empty, so each pass drops 0 bytes
  and \<open>0 + 76801 > 76800\<close> stays true. The model's \<open>None\<close> is that run.
\<close>

theorem Write_oversized_never_returns:
  "Write newAudioBuffer (replicate 76801 0) = None"
  by (simp add: Write_def newAudioBuffer_fields dropOldest_diverges)

text \<open>
  In general \<open>Write\<close> fails to return exactly for non-empty data, longer than the
  high-water mark, on an open buffer.
\<close>

lemma Write_None_iff:
  "Write b d = None \<longleftrightarrow> d \<noteq> [] \<and> \<not> closed b \<and> highWater b < length d"
proof (cases "d = [] \<or> closed b")
  case True
  then show ?thesis by (auto simp: Write_def)
next
  case False
  show ?thesis
  proof (cases "highWater b < length d")
    case True
    with False show ?thesis by (simp add: Write_def dropOldest_diverges)
  next
    case le: False
    with False dropOldest_terminates[of "length d" "highWater b" "buf b"]
    show ?thesis by (auto simp: Write_def)
  qed
qed

section \<open>FIFO order\<close>

lemma Write_open_buf:
  assumes "Write b d = Some (r, b')" "\<not> closed b"
  shows "\<exists>k. buf b' = drop k (buf b) @ d"
proof -
  from Write_Some_cases[OF assms(1)] assms(2)
  consider "d = []" "b' = b"
    | bs where "dropOldest (highWater b) (length d) (buf b) = Some bs" "b' = b\<lparr>buf := bs @ d\<rparr>"
    by blast
  then show ?thesis
  proof cases
    case 1
    then have "buf b' = drop 0 (buf b) @ d" by simp
    then show ?thesis by blast
  next
    case 2
    from dropOldest_Some_cases[OF 2(1)] obtain k where "bs = drop k (buf b)" by blast
    with 2(2) show ?thesis by auto
  qed
qed

lemma Write_closed_flag:
  assumes "Write b d = Some (r, b')"
  shows "closed b' = closed b"
  using Write_Some_cases[OF assms] by auto

lemma run_writes_suffix:
  assumes "run b (map OpWrite ds) = Some b'" "\<not> closed b"
  shows "suffix (buf b') (buf b @ concat ds) \<and> \<not> closed b'"
  using assms
proof (induction ds arbitrary: b)
  case Nil
  then show ?case by (simp add: suffix_def)
next
  case (Cons d ds)
  from Cons.prems(1) obtain r b1 where w: "Write b d = Some (r, b1)"
    and rest: "run b1 (map OpWrite ds) = Some b'"
    by (auto split: option.splits)
  from Write_closed_flag[OF w] Cons.prems(2) have open1: "\<not> closed b1" by simp
  from Write_open_buf[OF w Cons.prems(2)] obtain k where b1: "buf b1 = drop k (buf b) @ d"
    by blast
  from Cons.IH[OF rest open1] have ih: "suffix (buf b') (buf b1 @ concat ds)" and op: "\<not> closed b'"
    by simp_all
  have "buf b @ concat (d # ds) = take k (buf b) @ (buf b1 @ concat ds)"
    by (simp add: b1)
  then have "suffix (buf b1 @ concat ds) (buf b @ concat (d # ds))"
    unfolding suffix_def by blast
  with ih op show ?case by (blast intro: suffix_order.trans)
qed

lemma Read_released:
  "closed b \<or> lowWater b \<le> length (buf b) \<Longrightarrow> buf b \<noteq> [] \<Longrightarrow>
   Read b n = (ReadOk (take n (buf b)), b\<lparr>buf := drop n (buf b)\<rparr>)"
  by (auto simp: Read_def)

lemma step_config:
  assumes "step b x = Some b'"
  shows "capacity b' = capacity b \<and> lowWater b' = lowWater b \<and> highWater b' = highWater b"
proof (cases x)
  case (OpWrite d)
  with assms obtain r where "Write b d = Some (r, b')" by auto
  from Write_config[OF this] show ?thesis .
next
  case (OpRead n)
  with assms Read_config[of b n] show ?thesis by auto
next
  case OpClose
  with assms show ?thesis by (auto simp: Close_fields)
qed

lemma run_config:
  "run b ops = Some b' \<Longrightarrow>
   capacity b' = capacity b \<and> lowWater b' = lowWater b \<and> highWater b' = highWater b"
proof (induction ops arbitrary: b)
  case Nil
  then show ?case by simp
next
  case (Cons x xs)
  then obtain b1 where s: "step b x = Some b1" and r: "run b1 xs = Some b'"
    by (auto split: option.splits)
  from Cons.IH[OF r] step_config[OF s] show ?case by simp
qed

lemma Write_discard_fill:
  assumes "Write b d = Some (r, b')" "\<not> closed b" "highWater b < length (buf b) + length d"
    "length (buf b) \<le> highWater b"
  shows "highWater b < 2 * length (buf b')"
proof -
  from assms(3,4) have "d \<noteq> []" by auto
  with Write_Some_cases[OF assms(1)] assms(2)
  obtain bs where bs: "dropOldest (highWater b) (length d) (buf b) = Some bs"
    and b': "b' = b\<lparr>buf := bs @ d\<rparr>"
    by blast
  from dropOldest_Some_cases[OF bs] assms(3) have "highWater b < 2 * (length bs + length d)"
    by simp
  with b' show ?thesis by simp
qed

text \<open>
  Claim C3. After any sequence of writes to the freshly constructed buffer, a write that
  triggers discarding (fill plus incoming length above the high-water mark) and returns
  leaves a buffer that is a suffix of the stream of all bytes written so far; what was
  removed is a prefix of the old content; and a \<open>Read\<close> is not blocked and returns the
  first \<open>n\<close> retained bytes in that order, all of them when the caller's slice is long
  enough.
\<close>

theorem fifo_after_discard:
  assumes "run newAudioBuffer (map OpWrite ds) = Some b"
    and "Write b d = Some (r, b')"
    and "highWater b < length (buf b) + length d"
  shows "suffix (buf b') (concat ds @ d) \<and>
         (\<exists>k. buf b' = drop k (buf b) @ d) \<and>
         Read b' n = (ReadOk (take n (buf b')), b'\<lparr>buf := drop n (buf b')\<rparr>) \<and>
         fst (Read b' (length (buf b'))) = ReadOk (buf b')"
proof -
  have open0: "\<not> closed newAudioBuffer" by (simp add: newAudioBuffer_fields)
  from run_writes_suffix[OF assms(1) open0]
  have suf: "suffix (buf b) (concat ds)" and op: "\<not> closed b"
    by (simp_all add: newAudioBuffer_fields)
  from run_watermarks_ok[OF assms(1) newAudioBuffer_watermarks_ok]
  have ok: "length (buf b) \<le> highWater b" by (simp add: watermarks_ok_def)
  from Write_open_buf[OF assms(2) op] obtain k where k: "buf b' = drop k (buf b) @ d" by blast
  from suf obtain zs where zs: "concat ds = zs @ buf b" unfolding suffix_def by blast
  have "concat ds @ d = (zs @ take k (buf b)) @ buf b'"
    by (simp add: k zs)
  then have s1: "suffix (buf b') (concat ds @ d)" unfolding suffix_def by blast
  from run_config[OF assms(1)] have cfg: "lowWater b = 9600" "highWater b = 76800"
    by (simp_all add: newAudioBuffer_fields)
  from Write_config[OF assms(2)] cfg have cfg': "lowWater b' = 9600" by simp
  from Write_discard_fill[OF assms(2) op assms(3) ok] cfg
  have fill: "38400 < length (buf b')" by simp
  with cfg' have rel: "lowWater b' \<le> length (buf b')" "buf b' \<noteq> []" by auto
  then have rd: "Read b' m = (ReadOk (take m (buf b')), b'\<lparr>buf := drop m (buf b')\<rparr>)" for m
    by (simp add: Read_released)
  from s1 k rd[of n] rd[of "length (buf b')"] show ?thesis by auto
qed


theorem fifo_after_discard_witness:
  "run newAudioBuffer (map OpWrite [replicate 30000 1, replicate 30000 2])
     = Some (newAudioBuffer\<lparr>buf := replicate 30000 1 @ replicate 30000 2\<rparr>) \<and>
   Write (newAudioBuffer\<lparr>buf := replicate 30000 1 @ replicate 30000 2\<rparr>) (replicate 30000 3)
     = Some (WriteOk 30000, newAudioBuffer\<lparr>buf := replicate 30000 2 @ replicate 30000 3\<rparr>) \<and>
   highWater newAudioBuffer < length (replicate 30000 (1::byte) @ replicate 30000 2) + 30000 \<and>
   suffix (replicate 30000 (2::byte) @ replicate 30000 3)
          (concat [replicate 30000 1, replicate 30000 2] @ replicate 30000 3) \<and>
   Read (newAudioBuffer\<lparr>buf := replicate 30000 2 @ replicate 30000 3\<rparr>) 60000
     = (ReadOk (replicate 30000 2 @ replicate 30000 3), newAudioBuffer\<lparr>buf := []\<rparr>)"
proof -
  let ?b = "newAudioBuffer\<lparr>buf := replicate 30000 1 @ replicate 30000 2\<rparr>"
  let ?b' = "newAudioBuffer\<lparr>buf := replicate 30000 2 @ replicate 30000 3\<rparr>"
  have w1: "Write newAudioBuffer (replicate 30000 1)
            = Some (WriteOk 30000, newAudioBuffer\<lparr>buf := replicate 30000 1\<rparr>)"
    by (simp add: Write_fits newAudioBuffer_fields)
  have w2: "Write (newAudioBuffer\<lparr>buf := replicate 30000 1\<rparr>) (replicate 30000 2)
            = Some (WriteOk 30000, ?b)"
    by (simp add: Write_fits newAudioBuffer_fields)
  have run: "run newAudioBuffer (map OpWrite [replicate 30000 1, replicate 30000 2]) = Some ?b"
    by (simp add: w1 w2)
  have w3: "Write ?b (replicate 30000 3) = Some (WriteOk 30000, ?b')"
    by (simp add: Write_discard Write_fits newAudioBuffer_fields)
  have over: "highWater ?b < length (buf ?b) + length (replicate 30000 (3::byte))"
    by (simp add: newAudioBuffer_fields)
  from fifo_after_discard[OF run w3 over, of 60000] run w3 over
  show ?thesis by simp
qed

section \<open>Blocking reads\<close>


text \<open>
  Claim C4. A pass of \<open>Read\<close> leaves the caller waiting exactly when fill < low-water and
  the buffer is not closed, and then changes nothing. Otherwise it returns at once: end
  of stream on a closed empty buffer, else the first \<open>min n fill\<close> bytes, also when that
  is fewer than \<open>n\<close>. With low-water 100 on an empty open buffer, after a write of 60
  bytes the reader still waits, and after a second write of 60 bytes it is released.
\<close>

theorem blocking_read_threshold:
  "(fst (Read b n) = ReadBlocked \<longleftrightarrow> length (buf b) < lowWater b \<and> \<not> closed b) \<and>
   (fst (Read b n) = ReadBlocked \<longrightarrow> snd (Read b n) = b) \<and>
   (fst (Read b n) \<noteq> ReadBlocked \<longrightarrow>
      (closed b \<and> buf b = [] \<and> Read b n = (ReadErr EOF, b)) \<or>
      (Read b n = (ReadOk (take n (buf b)), b\<lparr>buf := drop n (buf b)\<rparr>) \<and>
       length (take n (buf b)) = min n (length (buf b)))) \<and>
   (lowWater c = 100 \<and> \<not> closed c \<and> buf c = [] \<and> 120 \<le> highWater c \<and>
    length d1 = 60 \<and> length d2 = 60 \<longrightarrow>
      Write c d1 = Some (WriteOk 60, c\<lparr>buf := d1\<rparr>) \<and>
      Read (c\<lparr>buf := d1\<rparr>) m = (ReadBlocked, c\<lparr>buf := d1\<rparr>) \<and>
      Write (c\<lparr>buf := d1\<rparr>) d2 = Some (WriteOk 60, c\<lparr>buf := d1 @ d2\<rparr>) \<and>
      Read (c\<lparr>buf := d1 @ d2\<rparr>) m
        = (ReadOk (take m (d1 @ d2)), c\<lparr>buf := drop m (d1 @ d2)\<rparr>))"
proof (intro conjI impI)
  assume ex: "lowWater c = 100 \<and> \<not> closed c \<and> buf c = [] \<and> 120 \<le> highWater c \<and>
    length d1 = 60 \<and> length d2 = 60"
  then have ne: "d1 \<noteq> []" "d2 \<noteq> []" by auto
  from ex ne show "Write c d1 = Some (WriteOk 60, c\<lparr>buf := d1\<rparr>)"
    using Write_fits[of d1 c] by simp
  from ex show "Read (c\<lparr>buf := d1\<rparr>) m = (ReadBlocked, c\<lparr>buf := d1\<rparr>)"
    by (simp add: Read_def)
  from ex ne show "Write (c\<lparr>buf := d1\<rparr>) d2 = Some (WriteOk 60, c\<lparr>buf := d1 @ d2\<rparr>)"
    using Write_fits[of d2 "c\<lparr>buf := d1\<rparr>"] by simp
  from ex show "Read (c\<lparr>buf := d1 @ d2\<rparr>) m
        = (ReadOk (take m (d1 @ d2)), c\<lparr>buf := drop m (d1 @ d2)\<rparr>)"
    by (simp add: Read_def)
qed (auto simp: Read_def split: if_splits)

theorem blocking_read_threshold_witness:
  "Write \<lparr>buf = [], closed = False, capacity = 1000, lowWater = 100, highWater = 800\<rparr>
     (replicate 60 1)
   = Some (WriteOk 60,
       \<lparr>buf = replicate 60 1, closed = False, capacity = 1000, lowWater = 100, highWater = 800\<rparr>) \<and>
   Read \<lparr>buf = replicate 60 1, closed = False, capacity = 1000, lowWater = 100, highWater = 800\<rparr>
     4096
   = (ReadBlocked,
       \<lparr>buf = replicate 60 1, closed = False, capacity = 1000, lowWater = 100, highWater = 800\<rparr>) \<and>
   Write \<lparr>buf = replicate 60 1, closed = False, capacity = 1000, lowWater = 100, highWater = 800\<rparr>
     (replicate 60 2)
   = Some (WriteOk 60,
       \<lparr>buf = replicate 60 1 @ replicate 60 2, closed = False, capacity = 1000, lowWater = 100,
        highWater = 800\<rparr>) \<and>
   Read \<lparr>buf = replicate 60 1 @ replicate 60 2, closed = False, capacity = 1000, lowWater = 100,
         highWater = 800\<rparr> 4096
   = (ReadOk (replicate 60 1 @ replicate 60 2),
       \<lparr>buf = [], closed = False, capacity = 1000, lowWater = 100, highWater = 800\<rparr>)"
  using blocking_read_threshold
    [of "\<lparr>buf = [], closed = False, capacity = 1000, lowWater = 100, highWater = 800\<rparr>" 4096
        "\<lparr>buf = [], closed = False, capacity = 1000, lowWater = 100, highWater = 800\<rparr>"
        "replicate 60 1" "replicate 60 2" 4096]
  by simp


section \<open>Close\<close>






section \<open>Writes to a closed buffer\<close>

text \<open>
  Claim C6, as stated, fails for the empty write: \<open>Write\<close> tests \<open>len(data) == 0\<close> before
  it looks at \<open>closed\<close>, so on a closed buffer it returns \<open>(0, nil)\<close>.
\<close>

theorem Write_closed_empty_counterexample:
  "closed (Close newAudioBuffer) \<and>
   Write (Close newAudioBuffer) [] = Some (WriteOk 0, Close newAudioBuffer) \<and>
   Write (Close newAudioBuffer) [] \<noteq> Some (WriteErr ErrClosedPipe, Close newAudioBuffer)"
  by (simp add: Write_def Close_fields)

text \<open>
  Claim C6, amended. Every non-empty write to a closed buffer returns the failure
  \<open>io.ErrClosedPipe\<close>, which differs from every success and from end of stream, and
  leaves the buffer as it was.
\<close>

theorem Write_closed_nonempty:
  "closed b \<Longrightarrow> d \<noteq> [] \<Longrightarrow>
   Write b d = Some (WriteErr ErrClosedPipe, b) \<and>
   WriteErr ErrClosedPipe \<noteq> WriteOk k \<and> ErrClosedPipe \<noteq> EOF"
  by (simp add: Write_def)

theorem Write_closed_nonempty_witness:
  "closed (Close (newAudioBuffer\<lparr>buf := [1, 2]\<rparr>)) \<and> [3, 4, 5] \<noteq> ([] :: byte list) \<and>
   Write (Close (newAudioBuffer\<lparr>buf := [1, 2]\<rparr>)) [3, 4, 5]
     = Some (WriteErr ErrClosedPipe, Close (newAudioBuffer\<lparr>buf := [1, 2]\<rparr>)) \<and>
   buf (Close (newAudioBuffer\<lparr>buf := [1, 2]\<rparr>)) = [1, 2]"
  using Write_closed_nonempty[of "Close (newAudioBuffer\<lparr>buf := [1, 2]\<rparr>)" "[3, 4, 5]"]
  by (simp add: Close_fields)

text \<open>
  Claim C10. An empty write returns \<open>(0, nil)\<close> and leaves the buffer as it was, closed
  or not; a write returns an error only if the data is non-empty and the buffer closed,
  and the error is then \<open>io.ErrClosedPipe\<close>.
\<close>

theorem Write_empty_noop:
  "Write b [] = Some (WriteOk 0, b) \<and>
   (Write c d = Some (WriteErr e, c') \<longrightarrow> d \<noteq> [] \<and> closed c \<and> e = ErrClosedPipe \<and> c' = c)"
  by (auto simp: Write_def split: if_splits option.splits)

theorem Write_empty_noop_witness:
  "Write (Close (newAudioBuffer\<lparr>buf := [9]\<rparr>)) []
     = Some (WriteOk 0, Close (newAudioBuffer\<lparr>buf := [9]\<rparr>)) \<and>
   Write (Close (newAudioBuffer\<lparr>buf := [9]\<rparr>)) [8]
     = Some (WriteErr ErrClosedPipe, Close (newAudioBuffer\<lparr>buf := [9]\<rparr>)) \<and>
   [8] \<noteq> ([] :: byte list) \<and> closed (Close (newAudioBuffer\<lparr>buf := [9]\<rparr>))"
proof -
  let ?c = "Close (newAudioBuffer\<lparr>buf := [9]\<rparr>)"
  have w: "Write ?c [8] = Some (WriteErr ErrClosedPipe, ?c)"
    by (simp add: Write_def Close_fields)
  from Write_empty_noop[of ?c ?c "[8]" ErrClosedPipe ?c] w show ?thesis by simp
qed

section \<open>Decode failures in the inbound loops\<close>

declare v2_loop.simps [simp del] v3_loop.simps [simp del]

lemma v2_sizes: "v2_len_pcmBuf = 2880" "v2_len_byteBuf = 5760"
  by (simp_all add: v2_len_byteBuf_def v2_len_pcmBuf_def v2_frameSize_def)

lemma length_PutUint16_bytes: "length (concat (map PutUint16 pcm)) = 2 * length pcm"
  by (induction pcm) (simp_all add: PutUint16_def)

lemma v2_loop_Nil: "v2_loop dec False [] b = Some (ReturnErr rtp_read_failed, b)"
  by (simp add: v2_loop.simps)

lemma v2_loop_closed: "v2_loop dec True ps b = Some (ReturnNil, b)"
  by (simp add: v2_loop.simps)

lemma v2_loop_skip: "dec p = None \<Longrightarrow> v2_loop dec False (p # rest) b = v2_loop dec False rest b"
  by (subst v2_loop.simps) simp

lemma v2_loop_deliver:
  "dec p = Some pcm \<Longrightarrow> length pcm \<le> v2_len_pcmBuf \<Longrightarrow>
   v2_loop dec False (p # rest) b =
     (case step b (OpWrite (v2_bytes dec p)) of
        None \<Rightarrow> None | Some b' \<Rightarrow> v2_loop dec False rest b')"
  by (subst v2_loop.simps)
     (auto simp: toByteArray_def v2_bytes_def v2_len_byteBuf_def
           split: option.splits write_result.splits prod.splits)

lemma v2_loop_run:
  assumes "\<forall>p \<in> set ps. \<forall>pcm. dec p = Some pcm \<longrightarrow> length pcm \<le> v2_len_pcmBuf"
  shows "v2_loop dec False ps b =
         map_option (Pair (ReturnErr rtp_read_failed))
           (run b (map (\<lambda>p. OpWrite (v2_bytes dec p)) (filter (\<lambda>p. dec p \<noteq> None) ps)))"
  using assms
proof (induction ps arbitrary: b)
  case Nil
  show ?case by (simp add: v2_loop_Nil)
next
  case (Cons p ps)
  then have IH: "v2_loop dec False ps b' =
         map_option (Pair (ReturnErr rtp_read_failed))
           (run b' (map (\<lambda>p. OpWrite (v2_bytes dec p)) (filter (\<lambda>p. dec p \<noteq> None) ps)))" for b'
    by simp
  show ?case
  proof (cases "dec p")
    case None
    then show ?thesis by (simp add: v2_loop_skip IH)
  next
    case (Some pcm)
    with Cons.prems have "length pcm \<le> v2_len_pcmBuf" by simp
    with Some have "v2_loop dec False (p # ps) b =
        (case step b (OpWrite (v2_bytes dec p)) of
           None \<Rightarrow> None | Some b' \<Rightarrow> v2_loop dec False ps b')"
      by (rule v2_loop_deliver)
    with Some show ?thesis
      by (simp add: IH split: option.splits)
  qed
qed

lemma v3_loop_Nil: "v3_loop dec False [] b = Some (ReturnErr rtp_read_failed, b)"
  by (simp add: v3_loop.simps)

lemma v3_loop_skip: "dec p = None \<Longrightarrow> v3_loop dec False (p # rest) b = v3_loop dec False rest b"
  by (subst v3_loop.simps) simp

lemma v3_loop_deliver:
  "dec p = Some out \<Longrightarrow> length out \<le> v3_len_pcmBuf \<Longrightarrow>
   v3_loop dec False (p # rest) b =
     (case step b (OpWrite (v3_bytes dec p)) of
        None \<Rightarrow> None | Some b' \<Rightarrow> v3_loop dec False rest b')"
  by (subst v3_loop.simps)
     (auto simp: v3_bytes_def split: option.splits write_result.splits prod.splits)

lemma v3_loop_run:
  assumes "\<forall>p \<in> set ps. \<forall>out. dec p = Some out \<longrightarrow> length out \<le> v3_len_pcmBuf"
  shows "v3_loop dec False ps b =
         map_option (Pair (ReturnErr rtp_read_failed))
           (run b (map (\<lambda>p. OpWrite (v3_bytes dec p)) (filter (\<lambda>p. dec p \<noteq> None) ps)))"
  using assms
proof (induction ps arbitrary: b)
  case Nil
  show ?case by (simp add: v3_loop_Nil)
next
  case (Cons p ps)
  then have IH: "v3_loop dec False ps b' =
         map_option (Pair (ReturnErr rtp_read_failed))
           (run b' (map (\<lambda>p. OpWrite (v3_bytes dec p)) (filter (\<lambda>p. dec p \<noteq> None) ps)))" for b'
    by simp
  show ?case
  proof (cases "dec p")
    case None
    then show ?thesis by (simp add: v3_loop_skip IH)
  next
    case (Some out)
    with Cons.prems have "length out \<le> v3_len_pcmBuf" by simp
    with Some have "v3_loop dec False (p # ps) b =
        (case step b (OpWrite (v3_bytes dec p)) of
           None \<Rightarrow> None | Some b' \<Rightarrow> v3_loop dec False ps b')"
      by (rule v3_loop_deliver)
    with Some show ?thesis
      by (simp add: IH split: option.splits)
  qed
qed


lemma run_writes_fit:
  "\<not> closed b \<Longrightarrow> length (buf b) + length (concat ds) \<le> highWater b \<Longrightarrow>
   run b (map OpWrite ds) = Some (b\<lparr>buf := buf b @ concat ds\<rparr>)"
proof (induction ds arbitrary: b)
  case Nil
  then show ?case by simp
next
  case (Cons d ds)
  show ?case
  proof (cases "d = []")
    case True
    with Cons show ?thesis by (simp add: Write_def)
  next
    case False
    with Cons.prems have w: "Write b d = Some (WriteOk (length d), b\<lparr>buf := buf b @ d\<rparr>)"
      by (simp add: Write_fits)
    from Cons.prems have "run (b\<lparr>buf := buf b @ d\<rparr>) (map OpWrite ds)
        = Some (b\<lparr>buf := buf b @ d, buf := (buf b @ d) @ concat ds\<rparr>)"
      using Cons.IH[of "b\<lparr>buf := buf b @ d\<rparr>"] by simp
    with w show ?thesis by simp
  qed
qed

text \<open>
  Claim C8. Take a track whose packets are valid frames \<open>pre\<close>, one frame \<open>bad\<close> on which
  the decoder fails, and valid frames \<open>post\<close>, a player that is not closed, and a jitter
  buffer whose high-water mark is at least one decoded frame. Then, in both players, the
  loop does not end at the bad frame: it runs to the end of the track, where it returns
  the read error, and the jitter buffer is then the one obtained by writing the PCM bytes
  of every frame of \<open>pre\<close> and \<open>post\<close>, in order, and nothing for the bad frame. When
  the buffer is open and all those bytes fit under the high-water mark, they all stand
  in the buffer, after what was there before.
\<close>

theorem decode_failure_is_skipped:
  "(dec2 bad = None \<and>
    (\<forall>p \<in> set (pre @ post). \<exists>pcm. dec2 p = Some pcm \<and> length pcm \<le> v2_len_pcmBuf) \<and>
    mimeType track = MimeTypeOpus \<and> packets track = pre @ bad # post \<and>
    \<not> v2_closed ap2 \<and> v2_len_byteBuf \<le> highWater (v2_audioBuffer ap2) \<longrightarrow>
    (\<exists>b'. run (v2_audioBuffer ap2) (map (\<lambda>p. OpWrite (v2_bytes dec2 p)) (pre @ post)) = Some b' \<and>
       WriteWebRTCTrack_V2 (Inr dec2) ap2 track
         = Some (ReturnErr rtp_read_failed, ap2\<lparr>v2_audioBuffer := b'\<rparr>) \<and>
       (\<not> closed (v2_audioBuffer ap2) \<and>
        length (buf (v2_audioBuffer ap2)) + length (concat (map (v2_bytes dec2) (pre @ post)))
          \<le> highWater (v2_audioBuffer ap2) \<longrightarrow>
        buf b' = buf (v2_audioBuffer ap2) @ concat (map (v2_bytes dec2) (pre @ post))))) \<and>
   (dec3 bad = None \<and>
    (\<forall>p \<in> set (pre @ post). \<exists>out. dec3 p = Some out \<and> length out \<le> v3_len_pcmBuf) \<and>
    mimeType track = MimeTypeOpus \<and> packets track = pre @ bad # post \<and>
    \<not> v3_closed ap3 \<and> v3_len_pcmBuf \<le> highWater (v3_audioBuffer ap3) \<longrightarrow>
    (\<exists>b'. run (v3_audioBuffer ap3) (map (\<lambda>p. OpWrite (v3_bytes dec3 p)) (pre @ post)) = Some b' \<and>
       WriteWebRTCTrack_V3 dec3 ap3 track
         = Some (ReturnErr rtp_read_failed, ap3\<lparr>v3_audioBuffer := b'\<rparr>) \<and>
       (\<not> closed (v3_audioBuffer ap3) \<and>
        length (buf (v3_audioBuffer ap3)) + length (concat (map (v3_bytes dec3) (pre @ post)))
          \<le> highWater (v3_audioBuffer ap3) \<longrightarrow>
        buf b' = buf (v3_audioBuffer ap3) @ concat (map (v3_bytes dec3) (pre @ post)))))"
proof (intro conjI impI)
  assume H: "dec2 bad = None \<and>
    (\<forall>p \<in> set (pre @ post). \<exists>pcm. dec2 p = Some pcm \<and> length pcm \<le> v2_len_pcmBuf) \<and>
    mimeType track = MimeTypeOpus \<and> packets track = pre @ bad # post \<and>
    \<not> v2_closed ap2 \<and> v2_len_byteBuf \<le> highWater (v2_audioBuffer ap2)"
  let ?b = "v2_audioBuffer ap2"
  let ?ws = "map (\<lambda>p. OpWrite (v2_bytes dec2 p)) (pre @ post)"
  from H have valid: "\<forall>p \<in> set (pre @ post). \<exists>pcm. dec2 p = Some pcm \<and> length pcm \<le> v2_len_pcmBuf"
    by blast
  have flt: "filter (\<lambda>p. dec2 p \<noteq> None) (pre @ bad # post) = pre @ post"
  proof -
    from valid have "filter (\<lambda>p. dec2 p \<noteq> None) pre = pre" "filter (\<lambda>p. dec2 p \<noteq> None) post = post"
      by (auto simp: filter_id_conv)
    with H show ?thesis by simp
  qed
  have bound: "\<forall>p \<in> set (pre @ bad # post). \<forall>pcm. dec2 p = Some pcm \<longrightarrow> length pcm \<le> v2_len_pcmBuf"
  proof (intro ballI allI impI)
    fix p pcm assume p: "p \<in> set (pre @ bad # post)" and d: "dec2 p = Some pcm"
    with H have "p \<in> set (pre @ post)" by auto
    with valid obtain pcm' where "dec2 p = Some pcm'" "length pcm' \<le> v2_len_pcmBuf" by blast
    with d show "length pcm \<le> v2_len_pcmBuf" by simp
  qed
  have "\<forall>d. OpWrite d \<in> set ?ws \<longrightarrow> length d \<le> highWater ?b"
  proof (intro allI impI)
    fix d assume "OpWrite d \<in> set ?ws"
    then obtain p where p: "p \<in> set (pre @ post)" and d: "d = v2_bytes dec2 p" by auto
    from valid p obtain pcm where "dec2 p = Some pcm" "length pcm \<le> v2_len_pcmBuf" by blast
    with d have "length d \<le> v2_len_byteBuf"
      by (simp add: v2_bytes_def length_PutUint16_bytes v2_len_byteBuf_def)
    with H show "length d \<le> highWater ?b" by simp
  qed
  from run_returns[OF this] obtain b' where r: "run ?b ?ws = Some b'" by blast
  have "v2_loop dec2 False (pre @ bad # post) ?b
          = map_option (Pair (ReturnErr rtp_read_failed)) (run ?b ?ws)"
    using v2_loop_run[OF bound, of ?b] by (simp only: flt)
  with r have loop: "v2_loop dec2 False (pre @ bad # post) ?b = Some (ReturnErr rtp_read_failed, b')"
    by simp
  with H have w: "WriteWebRTCTrack_V2 (Inr dec2) ap2 track
         = Some (ReturnErr rtp_read_failed, ap2\<lparr>v2_audioBuffer := b'\<rparr>)"
    by (simp add: WriteWebRTCTrack_V2_def)
  have fit: "buf b' = buf ?b @ concat (map (v2_bytes dec2) (pre @ post))"
    if "\<not> closed ?b \<and> length (buf ?b) + length (concat (map (v2_bytes dec2) (pre @ post)))
          \<le> highWater ?b"
  proof -
    from that run_writes_fit[of ?b "map (v2_bytes dec2) (pre @ post)"]
    have "run ?b ?ws = Some (?b\<lparr>buf := buf ?b @ concat (map (v2_bytes dec2) (pre @ post))\<rparr>)"
      by (simp add: comp_def)
    with r show ?thesis by auto
  qed
  from r w fit show "\<exists>b'. run ?b ?ws = Some b' \<and>
       WriteWebRTCTrack_V2 (Inr dec2) ap2 track
         = Some (ReturnErr rtp_read_failed, ap2\<lparr>v2_audioBuffer := b'\<rparr>) \<and>
       (\<not> closed ?b \<and>
        length (buf ?b) + length (concat (map (v2_bytes dec2) (pre @ post))) \<le> highWater ?b \<longrightarrow>
        buf b' = buf ?b @ concat (map (v2_bytes dec2) (pre @ post)))"
    by blast
next
  assume H: "dec3 bad = None \<and>
    (\<forall>p \<in> set (pre @ post). \<exists>out. dec3 p = Some out \<and> length out \<le> v3_len_pcmBuf) \<and>
    mimeType track = MimeTypeOpus \<and> packets track = pre @ bad # post \<and>
    \<not> v3_closed ap3 \<and> v3_len_pcmBuf \<le> highWater (v3_audioBuffer ap3)"
  let ?b = "v3_audioBuffer ap3"
  let ?ws = "map (\<lambda>p. OpWrite (v3_bytes dec3 p)) (pre @ post)"
  from H have valid: "\<forall>p \<in> set (pre @ post). \<exists>out. dec3 p = Some out \<and> length out \<le> v3_len_pcmBuf"
    by blast
  have flt: "filter (\<lambda>p. dec3 p \<noteq> None) (pre @ bad # post) = pre @ post"
  proof -
    from valid have "filter (\<lambda>p. dec3 p \<noteq> None) pre = pre" "filter (\<lambda>p. dec3 p \<noteq> None) post = post"
      by (auto simp: filter_id_conv)
    with H show ?thesis by simp
  qed
  have bound: "\<forall>p \<in> set (pre @ bad # post). \<forall>out. dec3 p = Some out \<longrightarrow> length out \<le> v3_len_pcmBuf"
  proof (intro ballI allI impI)
    fix p out assume p: "p \<in> set (pre @ bad # post)" and d: "dec3 p = Some out"
    with H have "p \<in> set (pre @ post)" by auto
    with valid obtain out' where "dec3 p = Some out'" "length out' \<le> v3_len_pcmBuf" by blast
    with d show "length out \<le> v3_len_pcmBuf" by simp
  qed
  have "\<forall>d. OpWrite d \<in> set ?ws \<longrightarrow> length d \<le> highWater ?b"
  proof (intro allI impI)
    fix d assume "OpWrite d \<in> set ?ws"
    then obtain p where p: "p \<in> set (pre @ post)" and d: "d = v3_bytes dec3 p" by auto
    from valid p obtain out where "dec3 p = Some out" "length out \<le> v3_len_pcmBuf" by blast
    with d have "length d \<le> v3_len_pcmBuf"
      by (simp add: v3_bytes_def v3_pcmBuf_def)
    with H show "length d \<le> highWater ?b" by simp
  qed
  from run_returns[OF this] obtain b' where r: "run ?b ?ws = Some b'" by blast
  have "v3_loop dec3 False (pre @ bad # post) ?b
          = map_option (Pair (ReturnErr rtp_read_failed)) (run ?b ?ws)"
    using v3_loop_run[OF bound, of ?b] by (simp only: flt)
  with r have loop: "v3_loop dec3 False (pre @ bad # post) ?b = Some (ReturnErr rtp_read_failed, b')"
    by simp
  with H have w: "WriteWebRTCTrack_V3 dec3 ap3 track
         = Some (ReturnErr rtp_read_failed, ap3\<lparr>v3_audioBuffer := b'\<rparr>)"
    by (simp add: WriteWebRTCTrack_V3_def)
  have fit: "buf b' = buf ?b @ concat (map (v3_bytes dec3) (pre @ post))"
    if "\<not> closed ?b \<and> length (buf ?b) + length (concat (map (v3_bytes dec3) (pre @ post)))
          \<le> highWater ?b"
  proof -
    from that run_writes_fit[of ?b "map (v3_bytes dec3) (pre @ post)"]
    have "run ?b ?ws = Some (?b\<lparr>buf := buf ?b @ concat (map (v3_bytes dec3) (pre @ post))\<rparr>)"
      by (simp add: comp_def)
    with r show ?thesis by auto
  qed
  from r w fit show "\<exists>b'. run ?b ?ws = Some b' \<and>
       WriteWebRTCTrack_V3 dec3 ap3 track
         = Some (ReturnErr rtp_read_failed, ap3\<lparr>v3_audioBuffer := b'\<rparr>) \<and>
       (\<not> closed ?b \<and>
        length (buf ?b) + length (concat (map (v3_bytes dec3) (pre @ post))) \<le> highWater ?b \<longrightarrow>
        buf b' = buf ?b @ concat (map (v3_bytes dec3) (pre @ post)))"
    by blast
qed

lemma PutUint16_258: "PutUint16 258 = [2, 1]" "PutUint16 1 = [1, 0]"
  by (simp_all add: PutUint16_def drop_bit_eq_div)

theorem decode_failure_is_skipped_witness:
  "WriteWebRTCTrack_V2 (Inr (\<lambda>p. if p = [0] then None else Some [1, 258]))
     \<lparr>v2_audioBuffer = newAudioBuffer, v2_closed = False\<rparr>
     \<lparr>mimeType = ''audio/opus'', packets = [[1], [0], [2]]\<rparr>
   = Some (ReturnErr rtp_read_failed,
       \<lparr>v2_audioBuffer = newAudioBuffer\<lparr>buf := [1, 0, 2, 1, 1, 0, 2, 1]\<rparr>, v2_closed = False\<rparr>) \<and>
   WriteWebRTCTrack_V3 (\<lambda>p. if p = [0] then None else Some (replicate 7680 (hd p)))
     \<lparr>v3_audioBuffer = newAudioBuffer, v3_closed = False\<rparr>
     \<lparr>mimeType = ''audio/opus'', packets = [[1], [0], [2]]\<rparr>
   = Some (ReturnErr rtp_read_failed,
       \<lparr>v3_audioBuffer = newAudioBuffer\<lparr>buf := replicate 7680 1 @ replicate 7680 2\<rparr>,
        v3_closed = False\<rparr>)"
proof -
  let ?dec2 = "\<lambda>p :: byte list. if p = [0] then None else Some [1, 258 :: int16]"
  let ?dec3 = "\<lambda>p :: byte list. if p = [0] then None else Some (replicate 7680 (hd p))"
  let ?ap2 = "\<lparr>v2_audioBuffer = newAudioBuffer, v2_closed = False\<rparr>"
  let ?ap3 = "\<lparr>v3_audioBuffer = newAudioBuffer, v3_closed = False\<rparr>"
  let ?track = "\<lparr>mimeType = ''audio/opus'', packets = [[1], [0], [2 :: byte]]\<rparr>"
  note inst = decode_failure_is_skipped[of ?dec2 "[0]" "[[1]]" "[[2]]" ?track ?ap2 ?dec3 ?ap3]
  have h2: "?dec2 [0] = None \<and>
    (\<forall>p \<in> set ([[1]] @ [[2]]). \<exists>pcm. ?dec2 p = Some pcm \<and> length pcm \<le> v2_len_pcmBuf) \<and>
    mimeType ?track = MimeTypeOpus \<and> packets ?track = [[1]] @ [0] # [[2]] \<and>
    \<not> v2_closed ?ap2 \<and> v2_len_byteBuf \<le> highWater (v2_audioBuffer ?ap2)"
    by (simp add: v2_sizes MimeTypeOpus_def newAudioBuffer_fields)
  have h3: "?dec3 [0] = None \<and>
    (\<forall>p \<in> set ([[1]] @ [[2]]). \<exists>out. ?dec3 p = Some out \<and> length out \<le> v3_len_pcmBuf) \<and>
    mimeType ?track = MimeTypeOpus \<and> packets ?track = [[1]] @ [0] # [[2]] \<and>
    \<not> v3_closed ?ap3 \<and> v3_len_pcmBuf \<le> highWater (v3_audioBuffer ?ap3)"
    by (simp add: v3_len_pcmBuf_def MimeTypeOpus_def newAudioBuffer_fields)
  have r2: "run (v2_audioBuffer ?ap2) (map (\<lambda>p. OpWrite (v2_bytes ?dec2 p)) ([[1]] @ [[2]]))
            = Some (newAudioBuffer\<lparr>buf := [1, 0, 2, 1, 1, 0, 2, 1]\<rparr>)"
    by (simp add: v2_bytes_def PutUint16_258 Write_fits newAudioBuffer_fields)
  have r3: "run (v3_audioBuffer ?ap3) (map (\<lambda>p. OpWrite (v3_bytes ?dec3 p)) ([[1]] @ [[2]]))
            = Some (newAudioBuffer\<lparr>buf := replicate 7680 1 @ replicate 7680 2\<rparr>)"
    by (simp add: v3_bytes_def v3_pcmBuf_def v3_len_pcmBuf_def Write_fits newAudioBuffer_fields)
  from inst h2 obtain b2 where
    "run (v2_audioBuffer ?ap2) (map (\<lambda>p. OpWrite (v2_bytes ?dec2 p)) ([[1]] @ [[2]])) = Some b2"
    "WriteWebRTCTrack_V2 (Inr ?dec2) ?ap2 ?track
       = Some (ReturnErr rtp_read_failed, ?ap2\<lparr>v2_audioBuffer := b2\<rparr>)"
    by blast
  with r2 have w2: "WriteWebRTCTrack_V2 (Inr ?dec2) ?ap2 ?track
      = Some (ReturnErr rtp_read_failed,
          ?ap2\<lparr>v2_audioBuffer := newAudioBuffer\<lparr>buf := [1, 0, 2, 1, 1, 0, 2, 1]\<rparr>\<rparr>)"
    by simp
  from inst h3 obtain b3 where
    "run (v3_audioBuffer ?ap3) (map (\<lambda>p. OpWrite (v3_bytes ?dec3 p)) ([[1]] @ [[2]])) = Some b3"
    "WriteWebRTCTrack_V3 ?dec3 ?ap3 ?track
       = Some (ReturnErr rtp_read_failed, ?ap3\<lparr>v3_audioBuffer := b3\<rparr>)"
    by blast
  with r3 have w3: "WriteWebRTCTrack_V3 ?dec3 ?ap3 ?track
      = Some (ReturnErr rtp_read_failed,
          ?ap3\<lparr>v3_audioBuffer := newAudioBuffer\<lparr>buf := replicate 7680 1 @ replicate 7680 2\<rparr>\<rparr>)"
    by simp
  from w2 w3 show ?thesis by simp
qed

section \<open>The cached session credential\<close>

lemma createEphemeralToken_events:
  "snd (createEphemeralToken w c) = [TokenRequest (Key c) (Model c) (Voice c)]"
  by (simp add: createEphemeralToken_def)

lemma createEphemeralToken_nonempty:
  "fst (createEphemeralToken w c) = Inr t \<Longrightarrow> t \<noteq> ''''"
  by (auto simp: createEphemeralToken_def split: sum.splits prod.splits if_splits)

lemma connectToRealtimeAPI_events:
  "snd (connectToRealtimeAPI w c) = [] \<or>
   (\<exists>sdp. snd (connectToRealtimeAPI w c) = [OfferRequest (Model c) sdp (ephemeralToken c)])"
  by (auto simp: connectToRealtimeAPI_def sendOffer_def split: sum.splits option.splits prod.splits)

lemma connectToRealtimeAPI_tokenResponse:
  "connectToRealtimeAPI (w\<lparr>tokenResponse := r\<rparr>) c = connectToRealtimeAPI w c"
  by (simp add: connectToRealtimeAPI_def sendOffer_def split: sum.splits option.splits prod.splits)

lemma setupPeerConnection_token:
  "ephemeralToken (snd (setupPeerConnection w c)) = ephemeralToken c \<and>
   Model (snd (setupPeerConnection w c)) = Model c"
  by (simp add: setupPeerConnection_def split: sum.splits option.splits)

lemma setupDataChannel_token:
  "ephemeralToken (snd (setupDataChannel w c)) = ephemeralToken c"
  by (simp add: setupDataChannel_def split: sum.splits)

lemma closePeerConnection_events:
  "\<forall>ev \<in> set (closePeerConnection c). \<not> is_TokenRequest ev"
  "offer_tokens (closePeerConnection c) = []"
  by (auto simp: closePeerConnection_def is_TokenRequest_def offer_tokens_def split: option.splits)

lemma offer_tokens_append: "offer_tokens (xs @ ys) = offer_tokens xs @ offer_tokens ys"
  by (simp add: offer_tokens_def)

lemma Connect_after_token_props:
  "ephemeralToken (fst (snd (Connect_after_token w c evs0))) = ephemeralToken c \<and>
   (\<exists>evs. snd (snd (Connect_after_token w c evs0)) = evs0 @ evs \<and>
          (\<forall>ev \<in> set evs. \<not> is_TokenRequest ev) \<and>
          (\<forall>t \<in> set (offer_tokens evs). t = ephemeralToken c))"
proof -
  obtain e1 c1 where s1: "setupPeerConnection w c = (e1, c1)" by (cases "setupPeerConnection w c")
  with setupPeerConnection_token[of w c] have t1: "ephemeralToken c1 = ephemeralToken c" by simp
  obtain e2 evs1 where s2: "connectToRealtimeAPI w c1 = (e2, evs1)"
    by (cases "connectToRealtimeAPI w c1")
  with connectToRealtimeAPI_events[of w c1] t1
  have ev1: "(\<forall>ev \<in> set evs1. \<not> is_TokenRequest ev) \<and>
             (\<forall>t \<in> set (offer_tokens evs1). t = ephemeralToken c)"
    by (auto simp: is_TokenRequest_def offer_tokens_def)
  obtain e3 c2 where s3: "setupDataChannel w c1 = (e3, c2)" by (cases "setupDataChannel w c1")
  with setupDataChannel_token[of w c1] t1 have t2: "ephemeralToken c2 = ephemeralToken c" by simp
  show ?thesis
  proof (cases e1)
    case (Some e)
    with s1 t1 show ?thesis by (simp add: Connect_after_token_def offer_tokens_def)
  next
    case None
    note n1 = this
    show ?thesis
    proof (cases e2)
      case (Some e)
      with n1 s1 s2 t1 ev1 closePeerConnection_events[of c1] show ?thesis
        by (simp add: Connect_after_token_def offer_tokens_append ball_Un)
    next
      case None
      note n2 = this
      show ?thesis
      proof (cases e3)
        case (Some e)
        with n1 n2 s1 s2 s3 t2 ev1 closePeerConnection_events[of c2] show ?thesis
          by (simp add: Connect_after_token_def offer_tokens_append ball_Un)
      next
        case None
        with n1 n2 s1 s2 s3 t2 ev1 show ?thesis
          by (simp add: Connect_after_token_def)
      qed
    qed
  qed
qed

lemma Connect_after_token_tokenResponse:
  "Connect_after_token (w\<lparr>tokenResponse := r\<rparr>) c evs0 = Connect_after_token w c evs0"
  by (simp add: Connect_after_token_def connectToRealtimeAPI_tokenResponse
      setupPeerConnection_def setupDataChannel_def split: sum.splits option.splits prod.splits)

text \<open>
  Claim C9. When \<open>Connect\<close> is called on a session that holds a token (non-empty), no
  token exchange takes place, the token is unchanged afterwards, every offer that is
  sent carries that token, and the result does not depend on what the token endpoint
  would have answered. When no token is held, the token exchange is the first thing
  \<open>Connect\<close> does, it happens once, and after a successful \<open>Connect\<close> a non-empty token
  is held. \<open>Disconnect\<close> leaves the token as it is.
\<close>

theorem cached_credential_reused:
  "(ephemeralToken c \<noteq> '''' \<longrightarrow>
      (\<forall>ev \<in> set (snd (snd (Connect w c))). \<not> is_TokenRequest ev) \<and>
      ephemeralToken (fst (snd (Connect w c))) = ephemeralToken c \<and>
      (\<forall>t \<in> set (offer_tokens (snd (snd (Connect w c)))). t = ephemeralToken c) \<and>
      Connect (w\<lparr>tokenResponse := r\<rparr>) c = Connect w c) \<and>
   (ephemeralToken c = '''' \<longrightarrow>
      (\<exists>evs. snd (snd (Connect w c)) = TokenRequest (Key c) (Model c) (Voice c) # evs \<and>
             (\<forall>ev \<in> set evs. \<not> is_TokenRequest ev)) \<and>
      (fst (Connect w c) = None \<longrightarrow> ephemeralToken (fst (snd (Connect w c))) \<noteq> '''')) \<and>
   ephemeralToken (fst (Disconnect c)) = ephemeralToken c"
proof (intro conjI impI)
  assume held: "ephemeralToken c \<noteq> ''''"
  then have C: "Connect w c = Connect_after_token w c []" for w
    by (simp add: Connect_def)
  from Connect_after_token_props[of w c "[]"] C[of w]
  show "\<forall>ev \<in> set (snd (snd (Connect w c))). \<not> is_TokenRequest ev"
    and "ephemeralToken (fst (snd (Connect w c))) = ephemeralToken c"
    and "\<forall>t \<in> set (offer_tokens (snd (snd (Connect w c)))). t = ephemeralToken c"
    by auto
  from C[of w] C[of "w\<lparr>tokenResponse := r\<rparr>"] Connect_after_token_tokenResponse[where w = w and r = r and c = c and ?evs0.0 = "[]"]
  show "Connect (w\<lparr>tokenResponse := r\<rparr>) c = Connect w c" by simp
next
  assume none: "ephemeralToken c = ''''"
  obtain res evs0 where ce: "createEphemeralToken w c = (res, evs0)"
    by (cases "createEphemeralToken w c")
  with createEphemeralToken_events[of w c]
  have evs0: "evs0 = [TokenRequest (Key c) (Model c) (Voice c)]" by simp
  show "\<exists>evs. snd (snd (Connect w c)) = TokenRequest (Key c) (Model c) (Voice c) # evs \<and>
             (\<forall>ev \<in> set evs. \<not> is_TokenRequest ev)"
  proof (cases res)
    case (Inl e)
    with none ce evs0 show ?thesis by (simp add: Connect_def)
  next
    case (Inr t)
    from Connect_after_token_props[of w "c\<lparr>ephemeralToken := t\<rparr>" evs0]
    obtain evs where "snd (snd (Connect_after_token w (c\<lparr>ephemeralToken := t\<rparr>) evs0)) = evs0 @ evs"
      "\<forall>ev \<in> set evs. \<not> is_TokenRequest ev" by blast
    with none ce evs0 Inr show ?thesis by (simp add: Connect_def)
  qed
  show "ephemeralToken (fst (snd (Connect w c))) \<noteq> ''''" if ok: "fst (Connect w c) = None"
  proof (cases res)
    case (Inl e)
    with none ce ok show ?thesis by (simp add: Connect_def)
  next
    case (Inr t)
    with ce createEphemeralToken_nonempty[of w c t] have "t \<noteq> ''''" by simp
    with Connect_after_token_props[of w "c\<lparr>ephemeralToken := t\<rparr>" evs0] none ce Inr
    show ?thesis by (simp add: Connect_def)
  qed
next
  show "ephemeralToken (fst (Disconnect c)) = ephemeralToken c"
    by (simp add: Disconnect_def)
qed

theorem cached_credential_reused_witness:
  "ephemeralToken (NewOpenAIRealtimeAPI ''sk'') = '''' \<and>
   Connect remote_ok (NewOpenAIRealtimeAPI ''sk'')
     = (None,
        (NewOpenAIRealtimeAPI ''sk'')
          \<lparr>ephemeralToken := ''ek_123'', peerConnection := Some 1, dataChannel := Some 7\<rparr>,
        [TokenRequest ''sk'' ''gpt-4o-realtime-preview-2024-12-17'' ''verse'',
         OfferRequest ''gpt-4o-realtime-preview-2024-12-17'' ''v=0'' ''ek_123'']) \<and>
   fst (Disconnect ((NewOpenAIRealtimeAPI ''sk'')
          \<lparr>ephemeralToken := ''ek_123'', peerConnection := Some 1, dataChannel := Some 7\<rparr>))
     = (NewOpenAIRealtimeAPI ''sk'')\<lparr>ephemeralToken := ''ek_123''\<rparr> \<and>
   ephemeralToken ((NewOpenAIRealtimeAPI ''sk'')\<lparr>ephemeralToken := ''ek_123''\<rparr>) \<noteq> '''' \<and>
   Connect (remote_ok\<lparr>tokenResponse := Inl (External ''unreachable'')\<rparr>)
       ((NewOpenAIRealtimeAPI ''sk'')\<lparr>ephemeralToken := ''ek_123''\<rparr>)
     = (None,
        (NewOpenAIRealtimeAPI ''sk'')
          \<lparr>ephemeralToken := ''ek_123'', peerConnection := Some 1, dataChannel := Some 7\<rparr>,
        [OfferRequest ''gpt-4o-realtime-preview-2024-12-17'' ''v=0'' ''ek_123''])"
proof -
  let ?c0 = "NewOpenAIRealtimeAPI ''sk''"
  let ?c1 = "?c0\<lparr>ephemeralToken := ''ek_123'', peerConnection := Some 1, dataChannel := Some 7\<rparr>"
  let ?c2 = "?c0\<lparr>ephemeralToken := ''ek_123''\<rparr>"
  have e0: "ephemeralToken ?c0 = ''''" by (simp add: NewOpenAIRealtimeAPI_def)
  have e2: "ephemeralToken ?c2 \<noteq> ''''" by simp
  have first: "Connect remote_ok ?c0
     = (None, ?c1,
        [TokenRequest ''sk'' ''gpt-4o-realtime-preview-2024-12-17'' ''verse'',
         OfferRequest ''gpt-4o-realtime-preview-2024-12-17'' ''v=0'' ''ek_123''])"
    by (simp add: Connect_def Connect_after_token_def createEphemeralToken_def
        setupPeerConnection_def connectToRealtimeAPI_def sendOffer_def setupDataChannel_def
        remote_ok_def NewOpenAIRealtimeAPI_def)
  have disc: "fst (Disconnect ?c1) = ?c2"
    by (simp add: Disconnect_def NewOpenAIRealtimeAPI_def)
  have again: "Connect remote_ok ?c2
     = (None, ?c1, [OfferRequest ''gpt-4o-realtime-preview-2024-12-17'' ''v=0'' ''ek_123''])"
    by (simp add: Connect_def Connect_after_token_def
        setupPeerConnection_def connectToRealtimeAPI_def sendOffer_def setupDataChannel_def
        remote_ok_def NewOpenAIRealtimeAPI_def)
  from cached_credential_reused[where c = ?c2 and w = remote_ok
      and r = "Inl (External ''unreachable'')"] e2 again
  have "Connect (remote_ok\<lparr>tokenResponse := Inl (External ''unreachable'')\<rparr>) ?c2
     = (None, ?c1, [OfferRequest ''gpt-4o-realtime-preview-2024-12-17'' ''v=0'' ''ek_123''])"
    by simp
  with e0 e2 first disc show ?thesis by simp
qed

section \<open>Rounding to \<open>float32\<close>\<close>

lemma floor_log2_eqI:
  assumes "0 < x" "2 powi e \<le> x" "x < 2 powi (e + 1)"
  shows "\<lfloor>log 2 x\<rfloor> = e"
proof -
  have a: "(2::real) powr (of_int e) = 2 powi e"
    by (simp add: powr_real_of_int')
  have "(2::real) powr (of_int (e + 1)) = 2 powi (e + 1)"
    by (rule powr_real_of_int') simp_all
  then have b: "(2::real) powr (of_int e + 1) = 2 powi (e + 1)" by simp
  from assms a b show ?thesis
    using floor_log_eq_powr_iff[of x 2 e] by simp
qed

lemma floor_log2_bounds:
  assumes "0 < x"
  shows "2 powi \<lfloor>log 2 x\<rfloor> \<le> x \<and> x < 2 powi (\<lfloor>log 2 x\<rfloor> + 1)"
proof -
  let ?e = "\<lfloor>log 2 x\<rfloor>"
  have a: "(2::real) powr (of_int ?e) = 2 powi ?e"
    by (simp add: powr_real_of_int')
  have "(2::real) powr (of_int (?e + 1)) = 2 powi (?e + 1)"
    by (rule powr_real_of_int') simp_all
  then have b: "(2::real) powr (of_int ?e + 1) = 2 powi (?e + 1)" by simp
  from assms floor_log_eq_powr_iff[of x 2 ?e] have "2 powr ?e \<le> x \<and> x < 2 powr (?e + 1)"
    by simp
  with a b show ?thesis by simp
qed

lemma round_half_even_ge: "of_int n \<le> y \<Longrightarrow> n \<le> round_half_even y"
proof -
  assume "of_int n \<le> y"
  then have "n \<le> \<lfloor>y\<rfloor>" by (simp add: le_floor_iff)
  then show ?thesis by (simp add: round_half_even_def Let_def)
qed

lemma round_half_even_le: "y \<le> of_int n \<Longrightarrow> round_half_even y \<le> n"
proof -
  assume le: "y \<le> of_int n"
  show ?thesis
  proof (cases "y = of_int n")
    case True
    then show ?thesis by (simp add: round_half_even_def)
  next
    case False
    with le have "y < of_int n" by simp
    then have "\<lfloor>y\<rfloor> < n" by (simp add: floor_less_iff)
    then show ?thesis by (simp add: round_half_even_def Let_def)
  qed
qed

lemma floor_bounds_cases:
  fixes y :: real
  obtains (integer) f where "y = of_int f" "\<lfloor>y\<rfloor> = f"
        | (fraction) f d where "y = of_int f + d" "0 < d" "d < 1" "\<lfloor>y\<rfloor> = f"
proof (cases "y = of_int \<lfloor>y\<rfloor>")
  case True
  then show ?thesis by (rule integer) simp
next
  case False
  have le: "of_int \<lfloor>y\<rfloor> \<le> y" by (rule of_int_floor_le)
  with False have "of_int \<lfloor>y\<rfloor> < y" by (metis order.not_eq_order_implies_strict)
  then have d0: "0 < y - of_int \<lfloor>y\<rfloor>" by (simp only: diff_gt_0_iff_gt)
  have "y < of_int \<lfloor>y\<rfloor> + 1" by linarith
  then have d1: "y - of_int \<lfloor>y\<rfloor> < 1" by (simp only: diff_less_eq add.commute)
  show ?thesis
    by (rule fraction[of "\<lfloor>y\<rfloor>" "y - of_int \<lfloor>y\<rfloor>"]) (use d0 d1 in \<open>simp_all del: of_int_floor_le\<close>)
qed

lemma floor_uminus_fraction:
  fixes d :: real
  assumes "0 < d" "d < 1"
  shows "\<lfloor>- (of_int f + d)\<rfloor> = - f - 1"
  by (rule floor_unique) (use assms in simp_all)

lemma floor_fraction:
  fixes d :: real
  assumes "0 < d" "d < 1"
  shows "\<lfloor>of_int f + d\<rfloor> = f"
  by (rule floor_unique) (use assms in simp_all)

lemma round_half_even_of_int: "round_half_even (of_int n) = n"
  by (simp add: round_half_even_def)

lemma round_half_even_fraction:
  assumes "0 < d" "d < 1"
  shows "round_half_even (of_int f + d) =
           (if d < 1 / 2 then f else if 1 / 2 < d then f + 1 else if even f then f else f + 1)"
  unfolding round_half_even_def Let_def floor_fraction[OF assms] by simp

lemma round_half_even_uminus: "round_half_even (- y) = - round_half_even y"
proof (cases y rule: floor_bounds_cases)
  case (integer f)
  then have "- y = of_int (- f)" by simp
  then have "round_half_even (- y) = - f" by (simp only: round_half_even_of_int)
  moreover from integer have "round_half_even y = f" by (simp only: round_half_even_of_int)
  ultimately show ?thesis by simp
next
  case (fraction f d)
  have d': "0 < 1 - d" "1 - d < 1" using fraction by simp_all
  have "- y = of_int (- f - 1) + (1 - d)" by (simp add: fraction(1))
  then have r2: "round_half_even (- y) =
      (if 1 - d < 1 / 2 then - f - 1 else if 1 / 2 < 1 - d then - f - 1 + 1
       else if even (- f - 1) then - f - 1 else - f - 1 + 1)"
    by (simp only: round_half_even_fraction[OF d'])
  have r1: "round_half_even y =
      (if d < 1 / 2 then f else if 1 / 2 < d then f + 1 else if even f then f else f + 1)"
    by (simp only: fraction(1) round_half_even_fraction[OF fraction(2,3)])
  consider "d < 1 / 2" | "1 / 2 < d" | "d = 1 / 2" by linarith
  then show ?thesis
  proof cases
    case 1
    then show ?thesis by (simp add: r1 r2)
  next
    case 2
    then show ?thesis by (simp add: r1 r2)
  next
    case 3
    then show ?thesis by (simp add: r1 r2)
  qed
qed

lemma two_powi_pos: "0 < (2::real) powi k"
  by simp

lemma two_powi_add: "(2::real) powi (a + b) = 2 powi a * 2 powi b"
  by (rule power_int_add) simp

lemma two_powi_mono: "a \<le> b \<Longrightarrow> (2::real) powi a \<le> 2 powi b"
  by (rule power_int_increasing) simp_all

lemma two_powi_less_cancel: "(2::real) powi a < 2 powi b \<Longrightarrow> a < b"
proof (rule ccontr)
  assume lt: "(2::real) powi a < 2 powi b" and "\<not> a < b"
  then have "b \<le> a" by simp
  from two_powi_mono[OF this] lt show False by simp
qed

lemma float32_ulp_pos: "0 < float32_ulp x"
  by (simp add: float32_ulp_def)

lemma float32_round_uminus: "float32_round (- x) = - float32_round x"
  by (simp add: float32_round_def float32_ulp_def round_half_even_uminus)

lemma float32_round_nonpos: "x \<le> 0 \<Longrightarrow> float32_round x \<le> 0"
proof -
  assume "x \<le> 0"
  with float32_ulp_pos[of x] have "x / float32_ulp x \<le> of_int 0"
    by (simp add: divide_nonpos_pos)
  then have "round_half_even (x / float32_ulp x) \<le> 0" by (rule round_half_even_le)
  with float32_ulp_pos[of x] show ?thesis
    by (simp add: float32_round_def mult_le_0_iff)
qed

lemma float32_round_ge:
  assumes n: "2 ^ 23 \<le> n" "n < 2 ^ 24" and j: "- 149 \<le> j"
    and mx: "of_int n * 2 powi j \<le> x"
  shows "of_int n * 2 powi j \<le> float32_round x"
proof -
  let ?m = "of_int n * (2::real) powi j"
  define E where "E = \<lfloor>log 2 x\<rfloor>"
  define q where "q = (2::real) powi (E - 23)"
  from n have npos: "0 < (of_int n :: real)" by simp
  then have mpos: "0 < ?m" by (simp add: two_powi_pos)
  with mx have xpos: "0 < x" by simp
  from floor_log2_bounds[OF xpos] have E: "2 powi E \<le> x" "x < 2 powi (E + 1)"
    by (simp_all add: E_def)
  have "(2::real) powi (j + 23) = 2 powi j * 2 ^ 23"
    by (simp add: two_powi_add)
  also from n(1) have "\<dots> \<le> ?m"
    by (simp add: mult.commute two_powi_pos)
  finally have "(2::real) powi (j + 23) < 2 powi (E + 1)" using mx E(2) by simp
  then have Ej: "j + 23 \<le> E" using two_powi_less_cancel by fastforce
  with j have "max (- 126) E = E" by simp
  moreover from xpos have "\<bar>x\<bar> = x" by simp
  ultimately have ulp: "float32_ulp x = q"
    unfolding float32_ulp_def q_def E_def by simp
  have qpos: "0 < q" by (simp add: q_def)
  show ?thesis
  proof (cases "E = j + 23")
    case True
    then have q: "q = 2 powi j" by (simp add: q_def)
    from mx qpos have "of_int n \<le> x / q" by (simp add: q pos_le_divide_eq)
    then have "n \<le> round_half_even (x / q)" by (rule round_half_even_ge)
    then have "(of_int n :: real) \<le> of_int (round_half_even (x / q))" by simp
    with qpos have "q * of_int n \<le> q * of_int (round_half_even (x / q))"
      by (simp only: mult_le_cancel_left_pos)
    then show ?thesis by (simp add: float32_round_def ulp q mult.commute)
  next
    case False
    with Ej have Ej': "j + 24 \<le> E" by simp
    have qE: "q * 2 ^ 23 = 2 powi E"
    proof -
      have "(2::real) powi E = 2 powi ((E - 23) + 23)" by simp
      also have "\<dots> = q * 2 ^ 23" by (simp only: two_powi_add q_def) simp
      finally show ?thesis by simp
    qed
    with E(1) qpos have "of_int (2 ^ 23) \<le> x / q" by (simp add: pos_le_divide_eq mult.commute)
    then have "2 ^ 23 \<le> round_half_even (x / q)" by (rule round_half_even_ge)
    then have "(2 ^ 23 :: real) \<le> of_int (round_half_even (x / q))"
      by (metis of_int_le_iff of_int_numeral of_int_power)
    with qpos have "q * 2 ^ 23 \<le> q * of_int (round_half_even (x / q))"
      by (simp only: mult_le_cancel_left_pos)
    with qE have fl: "2 powi E \<le> float32_round x" by (simp add: float32_round_def ulp)
    have "?m < 2 ^ 24 * 2 powi j" using n(2) by (simp add: two_powi_pos)
    also have "\<dots> = 2 powi (j + 24)" by (simp add: two_powi_add)
    also have "\<dots> \<le> 2 powi E" using Ej' by (rule two_powi_mono)
    finally show ?thesis using fl by simp
  qed
qed


lemma float32_round_le:
  assumes n: "2 ^ 23 \<le> n" "n < 2 ^ 24" and j: "- 149 \<le> j"
    and xm: "x \<le> of_int n * 2 powi j"
  shows "float32_round x \<le> of_int n * 2 powi j"
proof (cases "0 < x")
  case False
  then have "float32_round x \<le> 0" by (simp add: float32_round_nonpos)
  moreover from n have "0 < of_int n * (2::real) powi j" by (simp add: two_powi_pos)
  ultimately show ?thesis by simp
next
  case xpos: True
  let ?m = "of_int n * (2::real) powi j"
  define E where "E = \<lfloor>log 2 x\<rfloor>"
  define e where "e = max (- 126) E"
  define q where "q = (2::real) powi (e - 23)"
  from floor_log2_bounds[OF xpos] have E: "2 powi E \<le> x" "x < 2 powi (E + 1)"
    by (simp_all add: E_def)
  have "?m < 2 ^ 24 * 2 powi j" using n(2) by (simp add: two_powi_pos)
  also have "\<dots> = 2 powi (j + 24)" by (simp add: two_powi_add)
  finally have "(2::real) powi E < 2 powi (j + 24)" using xm E(1) by simp
  then have "E < j + 24" by (rule two_powi_less_cancel)
  with j have ej: "e \<le> j + 23" by (simp add: e_def)
  have Ee: "E \<le> e" by (simp add: e_def)
  from xpos have "\<bar>x\<bar> = x" by simp
  then have ulp: "float32_ulp x = q"
    unfolding float32_ulp_def q_def e_def E_def by simp
  have qpos: "0 < q" by (simp add: q_def)
  show ?thesis
  proof (cases "e = j + 23")
    case True
    then have q: "q = 2 powi j" by (simp add: q_def)
    from xm qpos have "x / q \<le> of_int n" by (simp add: q pos_divide_le_eq)
    then have "round_half_even (x / q) \<le> n" by (rule round_half_even_le)
    then have "(of_int (round_half_even (x / q)) :: real) \<le> of_int n" by simp
    with qpos have "q * of_int (round_half_even (x / q)) \<le> q * of_int n"
      by (simp only: mult_le_cancel_left_pos)
    then show ?thesis by (simp add: float32_round_def ulp q mult.commute)
  next
    case False
    with ej have ej': "e + 1 \<le> j + 23" by simp
    have qe: "q * 2 ^ 24 = 2 powi (e + 1)"
    proof -
      have "e + 1 = (e - 23) + 24" by arith
      then have "(2::real) powi (e + 1) = 2 powi ((e - 23) + 24)" by (simp only:)
      also have "\<dots> = q * 2 ^ 24" by (simp only: two_powi_add q_def) simp
      finally show ?thesis by simp
    qed
    from Ee have "(2::real) powi (E + 1) \<le> 2 powi (e + 1)" by (simp add: two_powi_mono)
    with E(2) qe have "x \<le> q * 2 ^ 24" by simp
    with qpos have "x / q \<le> of_int (2 ^ 24)" by (simp add: pos_divide_le_eq mult.commute)
    then have "round_half_even (x / q) \<le> 2 ^ 24" by (rule round_half_even_le)
    then have "(of_int (round_half_even (x / q)) :: real) \<le> 2 ^ 24"
      by (metis of_int_le_iff of_int_numeral of_int_power)
    with qpos have "q * of_int (round_half_even (x / q)) \<le> q * 2 ^ 24"
      by (simp only: mult_le_cancel_left_pos)
    with qe have "float32_round x \<le> 2 powi (e + 1)" by (simp add: float32_round_def ulp)
    also have "\<dots> \<le> 2 powi (j + 23)" using ej' by (rule two_powi_mono)
    also have "\<dots> = 2 ^ 23 * 2 powi j" by (simp add: two_powi_add)
    also have "\<dots> \<le> ?m" using n(1) by (simp add: two_powi_pos)
    finally show ?thesis .
  qed
qed

lemma float32_round_ge_32767: "32767 \<le> x \<Longrightarrow> 32767 \<le> float32_round x"
  using float32_round_ge[of 16776704 "- 9" x] by (simp add: power_int_minus)

lemma float32_round_ge_32768: "32768 \<le> x \<Longrightarrow> 32768 \<le> float32_round x"
  using float32_round_ge[of 8388608 "- 8" x] by (simp add: power_int_minus)

lemma float32_round_le_2147418112: "x \<le> 2147418112 \<Longrightarrow> float32_round x \<le> 2147418112"
  using float32_round_le[of 16776704 7 x] by simp

lemma float32_round_le_m32767: "x \<le> - 32767 \<Longrightarrow> float32_round x \<le> - 32767"
  using float32_round_ge_32767[of "- x"] by (simp add: float32_round_uminus)

lemma float32_round_le_m32768: "x \<le> - 32768 \<Longrightarrow> float32_round x \<le> - 32768"
  using float32_round_ge_32768[of "- x"] by (simp add: float32_round_uminus)

lemma float32_round_ge_m32768: "- 32768 \<le> x \<Longrightarrow> - 32768 \<le> float32_round x"
proof -
  assume "- 32768 \<le> x"
  then have "- x \<le> 32768" by simp
  with float32_round_le[of 8388608 "- 8" "- x"] have "float32_round (- x) \<le> 32768"
    by (simp add: power_int_minus)
  then show ?thesis by (simp add: float32_round_uminus)
qed

lemma float32_round_ge_m2147418112: "- 2147418112 \<le> x \<Longrightarrow> - 2147418112 \<le> float32_round x"
  using float32_round_le_2147418112[of "- x"] by (simp add: float32_round_uminus)

section \<open>Saturating sample conversion\<close>

lemma ulp_ex: "float32_ulp (- (68718067691 / 2097152)) = 1 / 512"
proof -
  have "\<lfloor>log 2 \<bar>- (68718067691 / 2097152) :: real\<bar>\<rfloor> = 14"
    by (rule floor_log2_eqI) simp_all
  then show ?thesis by (simp add: float32_ulp_def power_int_minus)
qed

lemma mul_ex: "float32_mul (- (2097173 / 2097152)) 32767 = - (2097109 / 64)"
  by (simp add: float32_mul_def float32_round_def ulp_ex round_half_even_def)

lemma truncate_ge: "of_int n \<le> x \<Longrightarrow> n \<le> truncate x"
  by (simp add: truncate_def le_floor_iff) linarith

lemma truncate_le: "x \<le> of_int n \<Longrightarrow> truncate x \<le> n"
  by (simp add: truncate_def ceiling_le_iff) linarith

lemma float32_mul_bounded:
  assumes "\<bar>s\<bar> \<le> 65536"
  shows "- 2147418112 \<le> truncate (float32_mul s 32767) \<and> truncate (float32_mul s 32767) \<le> 2147418112"
proof -
  from assms have "- 2147418112 \<le> s * 32767" "s * 32767 \<le> 2147418112" by simp_all
  then have "- 2147418112 \<le> float32_mul s 32767" "float32_mul s 32767 \<le> 2147418112"
    unfolding float32_mul_def
    by (simp_all only: float32_round_ge_m2147418112 float32_round_le_2147418112)
  then have "of_int (- 2147418112) \<le> float32_mul s 32767" "float32_mul s 32767 \<le> of_int 2147418112"
    by simp_all
  then show ?thesis by (metis truncate_ge truncate_le)
qed

lemma float_to_int_defined:
  assumes "32 \<le> w" "- 2147418112 \<le> truncate x" "truncate x \<le> 2147418112"
  shows "float_to_int w x = Some (truncate x)"
proof -
  from assms(1) have "31 \<le> w - 1" by simp
  then have "(2::int) ^ 31 \<le> 2 ^ (w - 1)" by (rule power_increasing) simp
  with assms(2,3) show ?thesis by (simp add: float_to_int_def)
qed

lemma sint_int16: "- 32768 \<le> t \<Longrightarrow> t \<le> 32767 \<Longrightarrow> sint (word_of_int t :: int16) = t"
  by (simp add: int_word_sint)

lemma int16_cases:
  "- 32768 \<le> t \<Longrightarrow> t \<le> - 32767 \<Longrightarrow> (word_of_int t :: int16) = - 32767 \<or> (word_of_int t :: int16) = - 32768"
proof -
  assume "- 32768 \<le> t" "t \<le> - 32767"
  then have "t = - 32767 \<or> t = - 32768" by arith
  then show ?thesis by auto
qed


lemma pcm16_eq:
  assumes "\<bar>s\<bar> \<le> 65536"
  shows "recordAudioToWav_pcm16 s =
    Some (if truncate (float32_mul s 32767) > 32767 then 32767
          else if truncate (float32_mul s 32767) < - 32768 then - 32768
          else word_of_int (truncate (float32_mul s 32767)))"
proof -
  from float32_mul_bounded[OF assms]
  have "float_to_int 32 (float32_mul s 32767) = Some (truncate (float32_mul s 32767))"
    by (intro float_to_int_defined) simp_all
  then show ?thesis by (simp add: recordAudioToWav_pcm16_def)
qed

lemma intBuf_eq:
  assumes "\<bar>s\<bar> \<le> 65536" "32 \<le> w"
  shows "main_intBuf w s = Some (max (- 32768) (min 32767 (truncate (float32_mul s 32767))))"
proof -
  from float32_mul_bounded[OF assms(1)] assms(2)
  have "float_to_int w (float32_mul s 32767) = Some (truncate (float32_mul s 32767))"
    by (intro float_to_int_defined) simp_all
  then show ?thesis by (simp add: main_intBuf_def max_def min_def)
qed

lemma truncate_mul_ge_one: 
  assumes "1 \<le> s"
  shows "32767 \<le> truncate (float32_mul s 32767)"
proof -
  from assms have "32767 \<le> s * 32767" by simp
  then have "32767 \<le> float32_mul s 32767"
    unfolding float32_mul_def by (rule float32_round_ge_32767)
  then have "of_int 32767 \<le> float32_mul s 32767" by simp
  then show ?thesis by (rule truncate_ge)
qed

lemma truncate_mul_le_full:
  assumes "s \<le> - (32768 / 32767)"
  shows "truncate (float32_mul s 32767) \<le> - 32768"
proof -
  from assms have "s * 32767 \<le> - 32768" by simp
  then have "float32_mul s 32767 \<le> - 32768"
    unfolding float32_mul_def by (rule float32_round_le_m32768)
  then have "float32_mul s 32767 \<le> of_int (- 32768)" by simp
  then show ?thesis by (rule truncate_le)
qed

lemma truncate_mul_between:
  assumes "- (32768 / 32767) < s" "s < - 1"
  shows "- 32768 \<le> truncate (float32_mul s 32767) \<and> truncate (float32_mul s 32767) \<le> - 32767"
proof -
  from assms have "- 32768 \<le> s * 32767" "s * 32767 \<le> - 32767" by simp_all
  then have "- 32768 \<le> float32_mul s 32767" "float32_mul s 32767 \<le> - 32767"
    unfolding float32_mul_def
    by (simp_all only: float32_round_ge_m32768 float32_round_le_m32767)
  then have "of_int (- 32768) \<le> float32_mul s 32767" "float32_mul s 32767 \<le> of_int (- 32767)"
    by simp_all
  then show ?thesis by (metis truncate_ge truncate_le)
qed

text \<open>
  Claim C7, as stated, fails just below \<open>-1.0\<close>: the sample \<open>-(1 + 84 / 2 ^ 23)\<close>, a
  \<open>float32\<close> of magnitude greater than \<open>1.0\<close>, is scaled to \<open>-32767.328125\<close>, truncated to
  \<open>-32767\<close> and stored unchanged, which is neither \<open>32767\<close> nor \<open>-32768\<close>.
\<close>

theorem conversion_saturates_counterexample:
  "1 < \<bar>- (2097173 / 2097152) :: real\<bar>
   \<and> recordAudioToWav_pcm16 (- (2097173 / 2097152)) = Some (- 32767)
   \<and> (- 32767 :: int16) \<noteq> 32767 \<and> (- 32767 :: int16) \<noteq> - 32768"
  by (simp add: recordAudioToWav_pcm16_def mul_ex float_to_int_def truncate_def)

text \<open>
  Claim C7, amended. For every sample of magnitude at most \<open>65536\<close> both conversions are
  defined and give the truncated product limited to the range from \<open>-32768\<close> to \<open>32767\<close>,
  so nothing wraps around. A sample of at least \<open>1.0\<close> gives \<open>32767\<close>, a sample of at most
  \<open>-32768/32767\<close> gives \<open>-32768\<close>, and a sample strictly between \<open>-32768/32767\<close> and
  \<open>-1.0\<close> gives \<open>-32767\<close> or \<open>-32768\<close>.
\<close>

theorem conversion_saturates:
  assumes "\<bar>s\<bar> \<le> 65536"
  shows "\<exists>r. recordAudioToWav_pcm16 s = Some r
     \<and> sint r = max (- 32768) (min 32767 (truncate (float32_mul s 32767)))
     \<and> (32 \<le> w \<longrightarrow> main_intBuf w s = Some (sint r))
     \<and> (1 \<le> s \<longrightarrow> r = 32767)
     \<and> (s \<le> - (32768 / 32767) \<longrightarrow> r = - 32768)
     \<and> (- (32768 / 32767) < s \<and> s < - 1 \<longrightarrow> r = - 32767 \<or> r = - 32768)"
proof -
  let ?t = "truncate (float32_mul s 32767)"
  let ?r = "if ?t > 32767 then 32767 else if ?t < - 32768 then - 32768 else (word_of_int ?t :: int16)"
  have a: "recordAudioToWav_pcm16 s = Some ?r" using assms by (rule pcm16_eq)
  have b: "sint ?r = max (- 32768) (min 32767 ?t)"
    by (simp add: sint_int16)
  have c: "32 \<le> w \<longrightarrow> main_intBuf w s = Some (sint ?r)"
    using intBuf_eq[OF assms, of w] by (simp only: b) simp
  have d: "1 \<le> s \<longrightarrow> ?r = 32767"
  proof
    assume "1 \<le> s"
    then have "32767 \<le> ?t" by (rule truncate_mul_ge_one)
    then have "?t = 32767 \<or> 32767 < ?t" by arith
    then show "?r = 32767" by auto
  qed
  have e: "s \<le> - (32768 / 32767) \<longrightarrow> ?r = - 32768"
  proof
    assume "s \<le> - (32768 / 32767)"
    then have "?t \<le> - 32768" by (rule truncate_mul_le_full)
    then have "?t = - 32768 \<or> ?t < - 32768" by arith
    then show "?r = - 32768" by auto
  qed
  have f: "- (32768 / 32767) < s \<and> s < - 1 \<longrightarrow> ?r = - 32767 \<or> ?r = - 32768"
  proof
    assume "- (32768 / 32767) < s \<and> s < - 1"
    then have "- 32768 \<le> ?t \<and> ?t \<le> - 32767" by (simp add: truncate_mul_between)
    then have "?t = - 32767 \<or> ?t = - 32768" by arith
    then show "?r = - 32767 \<or> ?r = - 32768" by auto
  qed
  from a b c d e f show ?thesis by blast
qed

theorem conversion_saturates_witness:
  "recordAudioToWav_pcm16 (3 / 2) = Some 32767
   \<and> main_intBuf 64 (3 / 2) = Some 32767
   \<and> recordAudioToWav_pcm16 (- (3 / 2)) = Some (- 32768)
   \<and> main_intBuf 64 (- (3 / 2)) = Some (- 32768)
   \<and> (recordAudioToWav_pcm16 (- (2097173 / 2097152)) = Some (- 32767)
      \<or> recordAudioToWav_pcm16 (- (2097173 / 2097152)) = Some (- 32768))"
proof -
  from conversion_saturates[of "3 / 2" 64]
  have a: "recordAudioToWav_pcm16 (3 / 2) = Some 32767 \<and> main_intBuf 64 (3 / 2) = Some 32767"
    by auto
  from conversion_saturates[of "- (3 / 2)" 64]
  have b: "recordAudioToWav_pcm16 (- (3 / 2)) = Some (- 32768)
      \<and> main_intBuf 64 (- (3 / 2)) = Some (- 32768)"
    by auto
  from conversion_saturates[of "- (2097173 / 2097152)" 64]
  have c: "recordAudioToWav_pcm16 (- (2097173 / 2097152)) = Some (- 32767)
      \<or> recordAudioToWav_pcm16 (- (2097173 / 2097152)) = Some (- 32768)"
    by auto
  from a b c show ?thesis by simp
qed

end
